theory Spec2Isabelle
  imports Complex_Main "HOL-Library.Multiset"
begin

section \<open>Data model\<close>

text \<open>
  The records follow the TypeScript interfaces of \<^verbatim>\<open>RegistrationsDialog.tsx\<close> and the
  columns of the migration \<^verbatim>\<open>20260203091254\<close>. A field called \<^verbatim>\<open>id\<close> or \<^verbatim>\<open>name\<close> in the
  source carries the name of its record as a suffix, because record fields are global
  constants in HOL. A nullable column is an \<open>option\<close>.

  JavaScript numbers are IEEE doubles. Every finite double is a rational number and the
  comparisons \<^verbatim>\<open>>=\<close> on finite doubles compare these rationals exactly, so a percentage
  is a \<open>rat\<close>.
\<close>

record program =
  id_program :: string
  name_program :: string
  verification_enabled :: bool

text \<open>
  \<^verbatim>\<open>answers._fixed\<close>, the reserved sub-map of a registration's answers. A key that is
  absent, or whose value is not a string, is \<open>None\<close>: the source only compares these
  values with \<^verbatim>\<open>===\<close> against a string or shows them.
\<close>

record fixed_fields =
  name_fixed :: "string option"
  mobile :: "string option"
  panchayath_id :: "string option"
  panchayath_name :: "string option"
  ward :: "string option"

text \<open>
  \<open>answers_fixed\<close> is \<^verbatim>\<open>answers?._fixed\<close>: \<open>None\<close> when \<^verbatim>\<open>answers\<close> is null or has no
  \<^verbatim>\<open>_fixed\<close> key. The per-question answers are not read by any function modelled here.
\<close>

record registration =
  id_registration :: string
  program_id :: string
  answers_fixed :: "fixed_fields option"
  created_at :: string
  verification_status :: string
  percentage :: "rat option"
  total_score :: "rat option"
  max_score :: "rat option"
  verification_scores :: "(string \<times> rat) list option"
  verified_at :: "string option"
  verified_by :: "string option"

section \<open>Number.prototype.toFixed(1)\<close>

text \<open>
  \<^verbatim>\<open>percentage.toFixed(1)\<close> follows ECMA-262, Number.prototype.toFixed with one
  fraction digit: the sign is split off, \<open>n\<close> is the integer for which \<open>n / 10\<close> is
  closest to the value (the larger one on a tie), and its decimal digits, padded on the
  left to two digits, get a point before the last digit. From \<open>10^21\<close> on the method
  returns the exponent notation of \<^verbatim>\<open>Number::toString\<close>; that text depends on the
  neighbouring doubles and is kept symbolic as \<open>Exponential\<close>.
\<close>

datatype numtext = Fixed string | Exponential rat

definition digit_char :: "nat \<Rightarrow> char" where
  "digit_char d = ''0123456789'' ! (d mod 10)"

fun digits :: "nat \<Rightarrow> string" where
  "digits n = (if n < 10 then [digit_char n] else digits (n div 10) @ [digit_char (n mod 10)])"

declare digits.simps [simp del]

definition toFixed1 :: "rat \<Rightarrow> numtext" where
  "toFixed1 x =
     (let s = (if x < 0 then ''-'' else '''');
          x' = (if x < 0 then - x else x)
      in if 10 ^ 21 \<le> x' then Exponential x
         else
           let n = nat \<lfloor>x' * 10 + 1 / 2\<rfloor>;
               m = digits n;
               m' = (if length m \<le> 1 then replicate (2 - length m) CHR ''0'' @ m else m);
               k = length m'
           in Fixed (s @ take (k - 1) m' @ ''.'' @ drop (k - 1) m'))"

section \<open>The verification badge of RegistrationsDialog\<close>

text \<open>
  What \<^verbatim>\<open>getVerificationBadge\<close> renders. \<open>VerifiedBadge c t\<close> is
  \<^verbatim>\<open><Badge className={c}><CheckCircle2/>{t}%</Badge>\<close> and \<open>PendingBadge\<close> is
  \<^verbatim>\<open><Badge variant="secondary"><Clock/>Pending</Badge>\<close>. The function returns
  \<^verbatim>\<open>null\<close> as \<open>None\<close>.
\<close>

datatype badge = VerifiedBadge string numtext | PendingBadge

text \<open>The \<^verbatim>\<open>className\<close> expression of the verified badge (lines 199 to 205).\<close>

definition badgeClassName :: "rat \<Rightarrow> string" where
  "badgeClassName pct =
     (if pct \<ge> 70 then ''bg-emerald-600''
      else if pct \<ge> 40 then ''bg-amber-600''
      else ''bg-destructive'')"

definition findProgram :: "program list \<Rightarrow> string \<Rightarrow> program option" where
  "findProgram programs pid = find (\<lambda>p. id_program p = pid) programs"

definition getVerificationBadge :: "program list \<Rightarrow> registration \<Rightarrow> badge option" where
  "getVerificationBadge programs reg =
     (case findProgram programs (program_id reg) of
        None \<Rightarrow> None
      | Some program \<Rightarrow>
          if \<not> verification_enabled program then None
          else if verification_status reg = ''verified'' then
            (let pct = (case percentage reg of None \<Rightarrow> 0 | Some v \<Rightarrow> v)
             in Some (VerifiedBadge (badgeClassName pct) (toFixed1 pct)))
          else Some PendingBadge)"

text \<open>
  The verify button of a table row (lines 366 to 384) is rendered under the guard
  \<^verbatim>\<open>program?.verification_enabled\<close>, with \<^verbatim>\<open>program\<close> found by the row's
  \<^verbatim>\<open>program_id\<close> (line 316).
\<close>

definition verifyActionOffered :: "program list \<Rightarrow> registration \<Rightarrow> bool" where
  "verifyActionOffered programs reg =
     (case findProgram programs (program_id reg) of
        None \<Rightarrow> False
      | Some program \<Rightarrow> verification_enabled program)"

text \<open>
  The migration adds \<^verbatim>\<open>verification_enabled boolean NOT NULL DEFAULT false\<close> to
  \<^verbatim>\<open>programs\<close>: a row inserted without a value for the column gets the default.
\<close>

definition verification_enabled_default :: bool where
  "verification_enabled_default = False"

definition insert_program :: "string \<Rightarrow> string \<Rightarrow> bool option \<Rightarrow> program" where
  "insert_program i n ve =
     \<lparr>id_program = i, name_program = n,
      verification_enabled = (case ve of None \<Rightarrow> verification_enabled_default | Some b \<Rightarrow> b)\<rparr>"

text \<open>
  The tiers of the specification's \<open>classify\<close>, written from its words:
  \<open>>=70 -> High\<close>, \<open>>=40 -> Medium\<close>, \<open>else -> Low\<close>; and the style the dialog gives
  each tier.
\<close>

datatype tier = High | Medium | Low

definition classify_spec :: "rat \<Rightarrow> tier" where
  "classify_spec p = (if p \<ge> 70 then High else if p \<ge> 40 then Medium else Low)"

fun tier_className :: "tier \<Rightarrow> string" where
  "tier_className High = ''bg-emerald-600''"
| "tier_className Medium = ''bg-amber-600''"
| "tier_className Low = ''bg-destructive''"

section \<open>The agent hierarchy of AgentDetailsPanel\<close>

text \<open>
  \<^verbatim>\<open>AgentRole\<close> has the four keys of \<^verbatim>\<open>ROLE_COLORS\<close>. The interface
  \<^verbatim>\<open>PennyekartAgent\<close> is declared in \<^verbatim>\<open>hooks/usePennyekartAgents\<close>, which is not among
  the sources; the record has the fields that \<^verbatim>\<open>AgentDetailsPanel\<close> reads.
  \<^verbatim>\<open>customer_count\<close> is an integer column; sums of such counts are exact in doubles
  below \<open>2^53\<close>, so the count is an \<open>int\<close>.
\<close>

datatype AgentRole = team_leader | coordinator | group_leader | pro

record PennyekartAgent =
  id_agent :: string
  name_agent :: string
  mobile_agent :: string
  ward_agent :: string
  role :: AgentRole
  parent_agent_id :: "string option"
  customer_count :: int

text \<open>
  \<^verbatim>\<open>allAgents.filter(c => c.parent_agent_id === a.id)\<close>: the \<^verbatim>\<open>children\<close> of
  \<^verbatim>\<open>calculateTotalCustomers\<close> (line 66) and the \<^verbatim>\<open>directReports\<close> of the panel
  (line 60). A null \<^verbatim>\<open>parent_agent_id\<close> is never \<^verbatim>\<open>===\<close> to an id.
\<close>

definition childrenOf :: "PennyekartAgent list \<Rightarrow> PennyekartAgent \<Rightarrow> PennyekartAgent list" where
  "childrenOf allAgents a = filter (\<lambda>c. parent_agent_id c = Some (id_agent a)) allAgents"

text \<open>
  \<^verbatim>\<open>children.reduce((sum, child) => sum + f(child), 0)\<close>, a left fold with an
  accumulator. The call \<open>f child\<close> may fail to return; then the fold does not return
  either, which is \<open>None\<close>.
\<close>

primrec reduce_sum :: "('a \<Rightarrow> int option) \<Rightarrow> 'a list \<Rightarrow> int \<Rightarrow> int option" where
  "reduce_sum f [] acc = Some acc"
| "reduce_sum f (child # rest) acc = Option.bind (f child) (\<lambda>v. reduce_sum f rest (acc + v))"

lemma reduce_sum_mono [partial_function_mono]:
  assumes "\<And>c. mono_option (\<lambda>f. F f c)"
  shows "mono_option (\<lambda>f. reduce_sum (F f) cs s)"
proof (induction cs arbitrary: s)
  case Nil
  show ?case by (simp add: option.const_mono)
next
  case (Cons c cs)
  show ?case
    unfolding reduce_sum.simps
    by (rule bind_mono) (rule assms, rule Cons.IH)
qed

text \<open>
  \<^verbatim>\<open>calculateTotalCustomers\<close> (lines 64 to 68). The recursion follows the parent links
  of the data and has no bound of its own, so the function is partial: \<open>None\<close> is a
  call that does not return a number (in a JavaScript engine the unbounded recursion ends
  in a stack overflow).
\<close>

partial_function (option) calculateTotalCustomers ::
  "PennyekartAgent list \<Rightarrow> PennyekartAgent \<Rightarrow> int option" where
  "calculateTotalCustomers allAgents a =
     (if role a = pro then Some (customer_count a)
      else reduce_sum (calculateTotalCustomers allAgents) (childrenOf allAgents a) 0)"

text \<open>
  The same body with a counter of nested calls: \<open>calculateTotalCustomers_bounded d\<close>
  is the result when at most \<open>d\<close> activations of \<^verbatim>\<open>calculateTotalCustomers\<close> are
  nested, and \<open>None\<close> when the computation would need more.
\<close>

fun calculateTotalCustomers_bounded ::
  "nat \<Rightarrow> PennyekartAgent list \<Rightarrow> PennyekartAgent \<Rightarrow> int option" where
  "calculateTotalCustomers_bounded 0 allAgents a = None"
| "calculateTotalCustomers_bounded (Suc d) allAgents a =
     (if role a = pro then Some (customer_count a)
      else reduce_sum (calculateTotalCustomers_bounded d allAgents) (childrenOf allAgents a) 0)"

text \<open>
  Modelled from the spec: the level order of the roles, \<open>team_leader\<close> above
  \<open>coordinator\<close> above \<open>group_leader\<close> above \<open>pro\<close> (\<^verbatim>\<open>getChildRole\<close> of
  \<^verbatim>\<open>hooks/usePennyekartAgents\<close> is not among the sources). It is used only to say which
  agent lists respect the hierarchy.
\<close>

fun role_level :: "AgentRole \<Rightarrow> nat" where
  "role_level team_leader = 0"
| "role_level coordinator = 1"
| "role_level group_leader = 2"
| "role_level pro = 3"

text \<open>An agent record with the fields that matter to the rollup; the rest is fixed.\<close>

abbreviation mk_agent :: "string \<Rightarrow> AgentRole \<Rightarrow> string option \<Rightarrow> int \<Rightarrow> PennyekartAgent" where
  "mk_agent i r p n \<equiv>
     \<lparr>id_agent = i, name_agent = i, mobile_agent = ''9000000000'', ward_agent = ''N/A'',
      role = r, parent_agent_id = p, customer_count = n\<rparr>"

section \<open>fetchRegistrations of RegistrationsDialog\<close>

text \<open>
  What one request to the \<^verbatim>\<open>admin-registrations\<close> function comes to. \<open>Threw\<close> is a
  rejected \<^verbatim>\<open>fetch\<close>, a body that is not JSON, or a body without an iterable
  \<^verbatim>\<open>registrations\<close>: each raises inside the \<^verbatim>\<open>try\<close> block. \<open>NotOk\<close> is a response
  whose \<^verbatim>\<open>ok\<close> is false, \<open>Ok regs\<close> one that delivers \<open>regs\<close>.
\<close>

datatype response = Threw | NotOk | Ok "registration list"

text \<open>
  JavaScript truthiness of an optional string (\<^verbatim>\<open>adminToken\<close>,
  \<^verbatim>\<open>filterPanchayathId\<close>): null, undefined and the empty string are falsy.
\<close>

definition truthy :: "string option \<Rightarrow> bool" where
  "truthy s = (case s of None \<Rightarrow> False | Some v \<Rightarrow> v \<noteq> [])"

text \<open>Lines 129 to 131.\<close>

definition programsToFetch :: "string \<Rightarrow> program list \<Rightarrow> string list" where
  "programsToFetch selectedProgramId programs =
     (if selectedProgramId = ''all'' then map id_program programs else [selectedProgramId])"

text \<open>
  The loop of lines 134 to 149 over \<^verbatim>\<open>programsToFetch\<close>, with the accumulator
  \<^verbatim>\<open>allRegistrations\<close>. \<open>fetch\<close> gives the response for a program id. \<open>None\<close> is
  an exception, which leaves the loop for the \<^verbatim>\<open>catch\<close> block.
\<close>

fun fetchAll :: "(string \<Rightarrow> response) \<Rightarrow> string list \<Rightarrow> registration list
                 \<Rightarrow> registration list option" where
  "fetchAll fetch [] allRegistrations = Some allRegistrations"
| "fetchAll fetch (programId # rest) allRegistrations =
     (case fetch programId of
        Threw \<Rightarrow> None
      | NotOk \<Rightarrow> fetchAll fetch rest allRegistrations
      | Ok regs \<Rightarrow> fetchAll fetch rest (allRegistrations @ regs))"

text \<open>\<^verbatim>\<open>reg.answers?._fixed?.panchayath_id === filterPanchayathId\<close> (line 154).\<close>

definition matchesPanchayath :: "string \<Rightarrow> registration \<Rightarrow> bool" where
  "matchesPanchayath filterId reg =
     (case answers_fixed reg of None \<Rightarrow> False | Some fx \<Rightarrow> panchayath_id fx = Some filterId)"

text \<open>Lines 152 to 156: the filter is applied when \<^verbatim>\<open>filterPanchayathId\<close> is truthy.\<close>

definition filterByPanchayath :: "string option \<Rightarrow> registration list \<Rightarrow> registration list" where
  "filterByPanchayath filterPanchayathId allRegistrations =
     (case filterPanchayathId of
        None \<Rightarrow> allRegistrations
      | Some filterId \<Rightarrow>
          if filterId = [] then allRegistrations
          else filter (matchesPanchayath filterId) allRegistrations)"

text \<open>
  What a call does to the \<^verbatim>\<open>registrations\<close> state. \<open>Skipped\<close>: the guard of line 124
  returned at once. \<open>Failed\<close>: an exception was caught and logged, the state is
  unchanged. \<open>Loaded regs\<close>: \<^verbatim>\<open>setRegistrations(regs)\<close>. \<open>LoadedUnordered regs\<close>:
  \<^verbatim>\<open>setRegistrations\<close> with some permutation of \<open>regs\<close>; this is the case where a
  \<^verbatim>\<open>created_at\<close> does not parse as a date, the comparator yields \<^verbatim>\<open>NaN\<close> and ECMA-262
  leaves the order to the implementation.
\<close>

datatype fetch_outcome =
  Skipped | Failed | Loaded "registration list" | LoadedUnordered "registration list"

text \<open>
  \<^verbatim>\<open>new Date(reg.created_at).getTime()\<close>. The date parser is the parameter \<open>getTime\<close>,
  from the text to the milliseconds since the epoch, \<open>None\<close> for \<^verbatim>\<open>NaN\<close>.
\<close>

definition createdTime :: "(string \<Rightarrow> int option) \<Rightarrow> registration \<Rightarrow> int option" where
  "createdTime getTime r = getTime (created_at r)"

text \<open>
  Lines 159 to 161: \<^verbatim>\<open>sort\<close> with the comparator \<^verbatim>\<open>(a, b) => time(b) - time(a)\<close>.
  \<^verbatim>\<open>Array.prototype.sort\<close> is stable, so with a consistent comparator the result is the
  stable sort by descending time: each registration is paired with its time and the pairs
  are sorted, stably, by the negated time.
\<close>

definition sortByCreatedAt :: "(string \<Rightarrow> int option) \<Rightarrow> registration list \<Rightarrow> fetch_outcome" where
  "sortByCreatedAt getTime allRegistrations =
     (case those (map (createdTime getTime) allRegistrations) of
        None \<Rightarrow> LoadedUnordered allRegistrations
      | Some tms \<Rightarrow>
          Loaded (map snd (sort_key (\<lambda>(t, r). - t) (zip tms allRegistrations))))"

text \<open>\<^verbatim>\<open>fetchRegistrations\<close> (lines 123 to 169).\<close>

definition fetchRegistrations ::
  "bool \<Rightarrow> string option \<Rightarrow> string \<Rightarrow> program list \<Rightarrow> string option
   \<Rightarrow> (string \<Rightarrow> response) \<Rightarrow> (string \<Rightarrow> int option) \<Rightarrow> fetch_outcome" where
  "fetchRegistrations isOpen adminToken selectedProgramId programs filterPanchayathId fetch getTime =
     (if \<not> isOpen \<or> \<not> truthy adminToken then Skipped
      else case fetchAll fetch (programsToFetch selectedProgramId programs) [] of
             None \<Rightarrow> Failed
           | Some allRegistrations \<Rightarrow>
               sortByCreatedAt getTime (filterByPanchayath filterPanchayathId allRegistrations))"

text \<open>A pending registration with the fields that matter to the dialog; the rest is fixed.\<close>

abbreviation mk_reg :: "string \<Rightarrow> string \<Rightarrow> string option \<Rightarrow> string \<Rightarrow> registration" where
  "mk_reg i pid pan created \<equiv>
     \<lparr>id_registration = i, program_id = pid,
      answers_fixed = Some \<lparr>name_fixed = Some ''Asha'', mobile = Some ''9000000000'',
        panchayath_id = pan, panchayath_name = None, ward = Some ''4''\<rparr>,
      created_at = created, verification_status = ''pending'', percentage = None,
      total_score = None, max_score = None, verification_scores = None,
      verified_at = None, verified_by = None\<rparr>"

section \<open>The scoring engine\<close>

text \<open>
  Modelled from the spec: the scoring of a registration. The repository's code for it is
  the component \<^verbatim>\<open>RegistrationVerification\<close> (\<^verbatim>\<open>components/programs\<close>), which
  \<^verbatim>\<open>RegistrationsDialog\<close> imports and renders but which is not among the sources, as is
  \<^verbatim>\<open>ProgramFormQuestion\<close> of \<^verbatim>\<open>hooks/usePrograms\<close>. The definitions of this section
  follow the contract \<open>score(registration, questions, scoresByQuestion)\<close> of the
  specification, section 4.1.

  Modelled from the spec: a form question has a stable identifier, a label and a sort
  position.
\<close>

record FormQuestion =
  id_question :: string
  label :: string
  sort_order :: int

text \<open>
  Modelled from the spec: \<open>InvalidScoreError\<close>, which identifies the offending question.
\<close>

datatype score_error = InvalidScoreError string

text \<open>
  Modelled from the spec: the result embeds the status \<open>verified\<close>, the score map, the
  computed aggregates, the verifier and the timestamp.
\<close>

record VerificationResult =
  result_status :: string
  result_scores :: "(string \<times> rat) list"
  result_total_score :: rat
  result_max_score :: rat
  result_percentage :: rat
  result_verified_by :: string
  result_verified_at :: string

text \<open>
  Modelled from the spec: a supplied score is valid when it is an integer in \<open>[0,10]\<close>.
  A score is a \<open>rat\<close>, so that a value that is not an integer can be supplied.
\<close>

definition is_integer :: "rat \<Rightarrow> bool" where
  "is_integer v = (of_int \<lfloor>v\<rfloor> = v)"

definition validScore :: "rat \<Rightarrow> bool" where
  "validScore v = (is_integer v \<and> 0 \<le> v \<and> v \<le> 10)"

text \<open>
  Modelled from the spec: the validation goes through the supplied scores, a list of
  pairs of question identifier and score, and reports the first question whose score is
  not valid.
\<close>

fun firstInvalid :: "(string \<times> rat) list \<Rightarrow> string option" where
  "firstInvalid [] = None"
| "firstInvalid ((q, v) # rest) = (if validScore v then firstInvalid rest else Some q)"

text \<open>
  Modelled from the spec: \<open>score\<close>. The validation comes first; then
  \<open>total_score = sum(scores)\<close>, \<open>max_score = 10 * count(questions)\<close> and
  \<open>percentage = max_score > 0 ? 100 * total_score / max_score : 0\<close>. A question without
  a supplied score adds nothing to the total and still counts in \<open>max_score\<close>. The actor
  and the time are supplied by the caller.
\<close>

definition score ::
  "registration \<Rightarrow> FormQuestion list \<Rightarrow> (string \<times> rat) list \<Rightarrow> string \<Rightarrow> string
   \<Rightarrow> score_error + VerificationResult" where
  "score reg questions scoresByQuestion actor now =
     (case firstInvalid scoresByQuestion of
        Some q \<Rightarrow> Inl (InvalidScoreError q)
      | None \<Rightarrow>
          let total = sum_list (map snd scoresByQuestion);
              maxs = 10 * of_nat (length questions);
              pct = (if maxs > 0 then 100 * total / maxs else 0)
          in Inr \<lparr>result_status = ''verified'', result_scores = scoresByQuestion,
                  result_total_score = total, result_max_score = maxs,
                  result_percentage = pct, result_verified_by = actor,
                  result_verified_at = now\<rparr>)"

text \<open>
  Modelled from the spec: \<open>persistVerification\<close> writes the result into the verification
  columns of the registration, replacing what was there.
\<close>

definition persistVerification :: "registration \<Rightarrow> VerificationResult \<Rightarrow> registration" where
  "persistVerification reg res =
     reg\<lparr>verification_status := result_status res,
         verification_scores := Some (result_scores res),
         total_score := Some (result_total_score res),
         max_score := Some (result_max_score res),
         percentage := Some (result_percentage res),
         verified_by := Some (result_verified_by res),
         verified_at := Some (result_verified_at res)\<rparr>"

text \<open>
  Modelled from the spec: one verification act. A rejected score map is rejected before
  any mutation: the registration is handed back as it was, with the error.
\<close>

definition verificationAct ::
  "registration \<Rightarrow> FormQuestion list \<Rightarrow> (string \<times> rat) list \<Rightarrow> string \<Rightarrow> string
   \<Rightarrow> score_error option \<times> registration" where
  "verificationAct reg questions scoresByQuestion actor now =
     (case score reg questions scoresByQuestion actor now of
        Inl e \<Rightarrow> (Some e, reg)
      | Inr res \<Rightarrow> (None, persistVerification reg res))"

text \<open>The score map has exactly one entry for each question of the set.\<close>

definition coversExactly :: "FormQuestion list \<Rightarrow> (string \<times> rat) list \<Rightarrow> bool" where
  "coversExactly questions scoresByQuestion =
     (distinct (map fst scoresByQuestion) \<and> distinct (map id_question questions)
      \<and> set (map fst scoresByQuestion) = set (map id_question questions))"

text \<open>
  The constraint \<^verbatim>\<open>program_registrations_verification_status_check\<close> of the migration:
  \<^verbatim>\<open>CHECK (verification_status IN ('pending', 'verified'))\<close>.
\<close>

definition verification_status_check :: "string \<Rightarrow> bool" where
  "verification_status_check s = (s = ''pending'' \<or> s = ''verified'')"

text \<open>
  A row of \<^verbatim>\<open>program_registrations\<close> inserted by a submission, which gives no value
  for the verification columns: the migration's defaults fill them,
  \<^verbatim>\<open>verification_status\<close> with \<^verbatim>\<open>'pending'\<close> and the others with \<^verbatim>\<open>NULL\<close>.
\<close>

definition insert_registration ::
  "string \<Rightarrow> string \<Rightarrow> fixed_fields option \<Rightarrow> string \<Rightarrow> registration" where
  "insert_registration i pid fx created =
     \<lparr>id_registration = i, program_id = pid, answers_fixed = fx, created_at = created,
      verification_status = ''pending'', percentage = None, total_score = None,
      max_score = None, verification_scores = None, verified_at = None, verified_by = None\<rparr>"

text \<open>
  Modelled from the spec: the life of a registration after its creation is a sequence of
  verification acts; no other operation writes the verification columns.
\<close>

datatype act = Verify "FormQuestion list" "(string \<times> rat) list" string string

fun runActs :: "registration \<Rightarrow> act list \<Rightarrow> registration" where
  "runActs reg [] = reg"
| "runActs reg (Verify questions scoresByQuestion actor now # rest) =
     runActs (snd (verificationAct reg questions scoresByQuestion actor now)) rest"

section \<open>Deleting an agent\<close>

text \<open>
  \<^verbatim>\<open>allAgents.find(a => a.id === agent.parent_agent_id)\<close> (line 61): the agent shown
  under "Reports To", absent when no listed agent has the id that \<^verbatim>\<open>parent_agent_id\<close>
  refers to.
\<close>

definition parentAgent :: "PennyekartAgent list \<Rightarrow> PennyekartAgent \<Rightarrow> PennyekartAgent option" where
  "parentAgent allAgents agent = find (\<lambda>a. Some (id_agent a) = parent_agent_id agent) allAgents"

text \<open>
  The warning of the delete dialog (lines 202 to 206): shown when the agent has direct
  reports, with their number, as the number of agents "that will become orphaned".
\<close>

definition orphanWarning :: "PennyekartAgent list \<Rightarrow> PennyekartAgent \<Rightarrow> nat option" where
  "orphanWarning allAgents agent =
     (let directReports = childrenOf allAgents agent
      in if length directReports > 0 then Some (length directReports) else None)"

text \<open>
  Modelled from the spec: the deletion of an agent. \<^verbatim>\<open>AgentDetailsPanel\<close> only calls
  the \<^verbatim>\<open>onDelete\<close> callback it is given; the handler and the delete mutation of
  \<^verbatim>\<open>hooks/usePennyekartAgents\<close> are not among the sources. By the specification the
  deletion removes the agent and leaves its children with a dangling parent reference
  rather than cascading: the agent list after the deletion is the list without the
  records of the deleted agent's id.
\<close>

definition deleteAgent :: "PennyekartAgent list \<Rightarrow> PennyekartAgent \<Rightarrow> PennyekartAgent list" where
  "deleteAgent allAgents agent = filter (\<lambda>a. id_agent a \<noteq> id_agent agent) allAgents"
section \<open>Properties of the verification badge\<close>

lemma digits_lt10: "n < 10 \<Longrightarrow> digits n = [digit_char n]"
  by (subst digits.simps) simp

lemma toFixed1_zero: "toFixed1 0 = Fixed ''0.0''"
  by (simp add: toFixed1_def digits_lt10 digit_char_def)

lemma badgeClassName_classify: "badgeClassName v = tier_className (classify_spec v)"
  by (simp add: badgeClassName_def classify_spec_def)

lemma inj_tier_className: "inj tier_className"
proof (rule injI)
  fix s t :: tier
  assume "tier_className s = tier_className t"
  then show "s = t" by (cases s; cases t) simp_all
qed

text \<open>
  C1. For a verified registration of a verification-enabled program with percentage \<open>v\<close>,
  the badge carries the style of exactly one tier, the one the rule
  \<open>v >= 70 -> High\<close>, \<open>v >= 40 -> Medium\<close>, \<open>else -> Low\<close> gives: the style of the
  dialog's inline conditional is the style of \<open>classify_spec v\<close>, and different tiers have
  different styles. At the boundaries, 39.9 is styled Low, 40.0 Medium, 69.9 Medium and
  70.0 High.
\<close>

theorem getVerificationBadge_classify:
  assumes "findProgram programs (program_id reg) = Some p"
    and "verification_enabled p"
    and "verification_status reg = ''verified''"
    and "percentage reg = Some v"
  shows "getVerificationBadge programs reg
           = Some (VerifiedBadge (tier_className (classify_spec v)) (toFixed1 v))
         \<and> classify_spec v = (if v \<ge> 70 then High else if v \<ge> 40 then Medium else Low)
         \<and> inj tier_className
         \<and> badgeClassName 39.9 = tier_className Low
         \<and> badgeClassName 40.0 = tier_className Medium
         \<and> badgeClassName 69.9 = tier_className Medium
         \<and> badgeClassName 70.0 = tier_className High"
proof -
  have "getVerificationBadge programs reg
          = Some (VerifiedBadge (badgeClassName v) (toFixed1 v))"
    using assms by (simp add: getVerificationBadge_def)
  moreover have "classify_spec v = (if v \<ge> 70 then High else if v \<ge> 40 then Medium else Low)"
    by (simp add: classify_spec_def)
  moreover have "badgeClassName 39.9 = tier_className Low"
    "badgeClassName 40.0 = tier_className Medium"
    "badgeClassName 69.9 = tier_className Medium"
    "badgeClassName 70.0 = tier_className High"
    by (simp_all add: badgeClassName_def)
  ultimately show ?thesis
    by (simp add: badgeClassName_classify inj_tier_className)
qed

theorem getVerificationBadge_classify_witness:
  "getVerificationBadge
     [\<lparr>id_program = ''p1'', name_program = ''Camp'', verification_enabled = True\<rparr>]
     \<lparr>id_registration = ''r1'', program_id = ''p1'', answers_fixed = None,
      created_at = ''2026-02-03T09:12:54Z'', verification_status = ''verified'',
      percentage = Some 69.9, total_score = Some 699, max_score = Some 1000,
      verification_scores = None, verified_at = None, verified_by = None\<rparr>
   = Some (VerifiedBadge ''bg-amber-600'' (Fixed ''69.9''))"
proof -
  have t: "toFixed1 69.9 = Fixed ''69.9''"
    by code_simp
  show ?thesis
    using getVerificationBadge_classify
      [of "[\<lparr>id_program = ''p1'', name_program = ''Camp'', verification_enabled = True\<rparr>]"
          "\<lparr>id_registration = ''r1'', program_id = ''p1'', answers_fixed = None,
            created_at = ''2026-02-03T09:12:54Z'', verification_status = ''verified'',
            percentage = Some 69.9, total_score = Some 699, max_score = Some 1000,
            verification_scores = None, verified_at = None, verified_by = None\<rparr>"
          "\<lparr>id_program = ''p1'', name_program = ''Camp'', verification_enabled = True\<rparr>"
          "69.9"]
    by (simp add: findProgram_def classify_spec_def t)
qed

lemma findProgram_Some_iff:
  "findProgram programs pid = Some p
   \<longleftrightarrow> (\<exists>k < length programs. programs ! k = p \<and> id_program p = pid
          \<and> (\<forall>j < k. id_program (programs ! j) \<noteq> pid))"
  by (auto simp: findProgram_def find_Some_iff)

lemma findProgram_distinct:
  assumes "distinct (map id_program programs)" and "q \<in> set programs"
  shows "findProgram programs (id_program q) = Some q"
  using assms
proof (induction programs)
  case Nil
  then show ?case by simp
next
  case (Cons x xs)
  show ?case
  proof (cases "q = x")
    case True
    then show ?thesis by (simp add: findProgram_def)
  next
    case False
    with Cons.prems have qin: "q \<in> set xs" and d: "distinct (map id_program xs)"
      and nx: "id_program x \<notin> id_program ` set xs"
      by simp_all
    from qin nx have "id_program x \<noteq> id_program q" by auto
    moreover from Cons.IH[OF d qin] have "find (\<lambda>p. id_program p = id_program q) xs = Some q"
      by (simp add: findProgram_def)
    ultimately show ?thesis by (simp add: findProgram_def)
  qed
qed

text \<open>
  C7. A program row inserted without a value for \<open>verification_enabled\<close> has the flag
  false. The flag of the registration's own program gates the scoring interface. The
  program of a registration is the first listed program whose id is the registration's
  \<open>program_id\<close>. \<open>getVerificationBadge\<close> returns a badge exactly when that program
  exists and has the flag set, and the verify action is offered exactly then. So, in a
  list of programs with distinct ids, for a registration of the listed program \<open>q\<close>
  the badge is produced if and only if \<open>q\<close> has the flag set, and so is the verify
  action: with the flag false the badge is null and no verify action is offered, whatever
  the flags of the other programs are.
\<close>

theorem verification_enabled_gates:
  "verification_enabled (insert_program i n None) = False
   \<and> (getVerificationBadge programs reg \<noteq> None
        \<longleftrightarrow> (\<exists>p. findProgram programs (program_id reg) = Some p \<and> verification_enabled p))
   \<and> (verifyActionOffered programs reg
        \<longleftrightarrow> (\<exists>p. findProgram programs (program_id reg) = Some p \<and> verification_enabled p))
   \<and> (findProgram programs (program_id reg) = Some q \<and> \<not> verification_enabled q
        \<longrightarrow> getVerificationBadge programs reg = None \<and> \<not> verifyActionOffered programs reg)
   \<and> (\<forall>p. findProgram programs (program_id reg) = Some p
          \<longleftrightarrow> (\<exists>k < length programs. programs ! k = p \<and> id_program p = program_id reg
                 \<and> (\<forall>j < k. id_program (programs ! j) \<noteq> program_id reg)))
   \<and> (distinct (map id_program programs) \<and> q \<in> set programs
        \<and> id_program q = program_id reg
        \<longrightarrow> (getVerificationBadge programs reg \<noteq> None \<longleftrightarrow> verification_enabled q)
            \<and> (verifyActionOffered programs reg \<longleftrightarrow> verification_enabled q))
   \<and> ((\<forall>p \<in> set programs. id_program p \<noteq> program_id reg)
        \<longrightarrow> getVerificationBadge programs reg = None \<and> \<not> verifyActionOffered programs reg)"
proof -
  have a: "verification_enabled (insert_program i n None) = False"
    by (simp add: insert_program_def verification_enabled_default_def)
  have b: "getVerificationBadge programs reg \<noteq> None
        \<longleftrightarrow> (\<exists>p. findProgram programs (program_id reg) = Some p \<and> verification_enabled p)"
    by (simp add: getVerificationBadge_def Let_def split: option.splits)
  have c: "verifyActionOffered programs reg
        \<longleftrightarrow> (\<exists>p. findProgram programs (program_id reg) = Some p \<and> verification_enabled p)"
    by (simp add: verifyActionOffered_def split: option.splits)
  have d: "findProgram programs (program_id reg) = Some q \<and> \<not> verification_enabled q
        \<longrightarrow> getVerificationBadge programs reg = None \<and> \<not> verifyActionOffered programs reg"
    by (simp add: getVerificationBadge_def verifyActionOffered_def)
  have e: "\<forall>p. findProgram programs (program_id reg) = Some p
          \<longleftrightarrow> (\<exists>k < length programs. programs ! k = p \<and> id_program p = program_id reg
                 \<and> (\<forall>j < k. id_program (programs ! j) \<noteq> program_id reg))"
    by (simp only: findProgram_Some_iff) simp
  have f: "distinct (map id_program programs) \<and> q \<in> set programs
        \<and> id_program q = program_id reg
        \<longrightarrow> (getVerificationBadge programs reg \<noteq> None \<longleftrightarrow> verification_enabled q)
            \<and> (verifyActionOffered programs reg \<longleftrightarrow> verification_enabled q)"
  proof
    assume h: "distinct (map id_program programs) \<and> q \<in> set programs
        \<and> id_program q = program_id reg"
    then have "findProgram programs (program_id reg) = Some q"
      using findProgram_distinct[of programs q] by simp
    with b c show "(getVerificationBadge programs reg \<noteq> None \<longleftrightarrow> verification_enabled q)
            \<and> (verifyActionOffered programs reg \<longleftrightarrow> verification_enabled q)"
      by simp
  qed
  have g: "(\<forall>p \<in> set programs. id_program p \<noteq> program_id reg)
        \<longrightarrow> getVerificationBadge programs reg = None \<and> \<not> verifyActionOffered programs reg"
  proof
    assume "\<forall>p \<in> set programs. id_program p \<noteq> program_id reg"
    then have "findProgram programs (program_id reg) = None"
      by (simp add: findProgram_def find_None_iff)
    then show "getVerificationBadge programs reg = None \<and> \<not> verifyActionOffered programs reg"
      by (simp add: getVerificationBadge_def verifyActionOffered_def)
  qed
  from a b c d e f g show ?thesis by (intro conjI)
qed

theorem verification_enabled_gates_witness:
  "getVerificationBadge
     [\<lparr>id_program = ''p1'', name_program = ''Camp'', verification_enabled = True\<rparr>,
      insert_program ''p2'' ''Fair'' None]
     \<lparr>id_registration = ''r1'', program_id = ''p2'', answers_fixed = None,
      created_at = ''2026-02-03T09:12:54Z'', verification_status = ''verified'',
      percentage = Some 80, total_score = Some 8, max_score = Some 10,
      verification_scores = None, verified_at = None, verified_by = None\<rparr> = None
   \<and> \<not> verifyActionOffered
     [\<lparr>id_program = ''p1'', name_program = ''Camp'', verification_enabled = True\<rparr>,
      insert_program ''p2'' ''Fair'' None]
     \<lparr>id_registration = ''r1'', program_id = ''p2'', answers_fixed = None,
      created_at = ''2026-02-03T09:12:54Z'', verification_status = ''verified'',
      percentage = Some 80, total_score = Some 8, max_score = Some 10,
      verification_scores = None, verified_at = None, verified_by = None\<rparr>
   \<and> getVerificationBadge
     [\<lparr>id_program = ''p1'', name_program = ''Camp'', verification_enabled = True\<rparr>,
      insert_program ''p2'' ''Fair'' None]
     \<lparr>id_registration = ''r2'', program_id = ''p1'', answers_fixed = None,
      created_at = ''2026-02-03T09:12:54Z'', verification_status = ''pending'',
      percentage = None, total_score = None, max_score = None,
      verification_scores = None, verified_at = None, verified_by = None\<rparr> \<noteq> None
   \<and> verifyActionOffered
     [\<lparr>id_program = ''p1'', name_program = ''Camp'', verification_enabled = True\<rparr>,
      insert_program ''p2'' ''Fair'' None]
     \<lparr>id_registration = ''r2'', program_id = ''p1'', answers_fixed = None,
      created_at = ''2026-02-03T09:12:54Z'', verification_status = ''pending'',
      percentage = None, total_score = None, max_score = None,
      verification_scores = None, verified_at = None, verified_by = None\<rparr>"
proof -
  let ?p1 = "\<lparr>id_program = ''p1'', name_program = ''Camp'', verification_enabled = True\<rparr>"
  let ?p2 = "insert_program ''p2'' ''Fair'' None"
  let ?r1 = "\<lparr>id_registration = ''r1'', program_id = ''p2'', answers_fixed = None,
      created_at = ''2026-02-03T09:12:54Z'', verification_status = ''verified'',
      percentage = Some 80, total_score = Some 8, max_score = Some 10,
      verification_scores = None, verified_at = None, verified_by = None\<rparr>"
  let ?r2 = "\<lparr>id_registration = ''r2'', program_id = ''p1'', answers_fixed = None,
      created_at = ''2026-02-03T09:12:54Z'', verification_status = ''pending'',
      percentage = None, total_score = None, max_score = None,
      verification_scores = None, verified_at = None, verified_by = None\<rparr>"
  have h2: "distinct (map id_program [?p1, ?p2]) \<and> ?p2 \<in> set [?p1, ?p2]
        \<and> id_program ?p2 = program_id ?r1"
    by (simp add: insert_program_def)
  have h1: "distinct (map id_program [?p1, ?p2]) \<and> ?p1 \<in> set [?p1, ?p2]
        \<and> id_program ?p1 = program_id ?r2"
    by (simp add: insert_program_def)
  have e2: "\<not> verification_enabled ?p2"
    using verification_enabled_gates [of "''p2''" "''Fair''" "[?p1, ?p2]" ?r1 ?p2] by simp
  have a: "getVerificationBadge [?p1, ?p2] ?r1 = None \<and> \<not> verifyActionOffered [?p1, ?p2] ?r1"
    using verification_enabled_gates [of "''p2''" "''Fair''" "[?p1, ?p2]" ?r1 ?p2] h2 e2
    by blast
  have "(getVerificationBadge [?p1, ?p2] ?r2 \<noteq> None \<longleftrightarrow> verification_enabled ?p1)
        \<and> (verifyActionOffered [?p1, ?p2] ?r2 \<longleftrightarrow> verification_enabled ?p1)"
    using verification_enabled_gates [of "''p1''" "''Camp''" "[?p1, ?p2]" ?r2 ?p1] h1
    by blast
  then have b: "getVerificationBadge [?p1, ?p2] ?r2 \<noteq> None
        \<and> verifyActionOffered [?p1, ?p2] ?r2"
    by simp
  from a b show ?thesis by simp
qed

text \<open>
  C10. For a registration of a verification-enabled program whose status is verified and
  whose percentage is null, the badge computation returns a badge: it takes 0 for the
  missing percentage, so the text is \<open>0.0\<close> (followed by the percent sign) and the style
  is the one of the Low tier.
\<close>

theorem getVerificationBadge_null_percentage:
  assumes "findProgram programs (program_id reg) = Some p"
    and "verification_enabled p"
    and "verification_status reg = ''verified''"
    and "percentage reg = None"
  shows "getVerificationBadge programs reg
           = Some (VerifiedBadge ''bg-destructive'' (Fixed ''0.0''))
         \<and> tier_className Low = ''bg-destructive''
         \<and> classify_spec 0 = Low"
  using assms
  by (simp add: getVerificationBadge_def badgeClassName_def toFixed1_zero classify_spec_def)

theorem getVerificationBadge_null_percentage_witness:
  "getVerificationBadge
     [\<lparr>id_program = ''p1'', name_program = ''Camp'', verification_enabled = True\<rparr>]
     \<lparr>id_registration = ''r2'', program_id = ''p1'', answers_fixed = None,
      created_at = ''2026-02-03T09:12:54Z'', verification_status = ''verified'',
      percentage = None, total_score = None, max_score = None,
      verification_scores = None, verified_at = None, verified_by = None\<rparr>
   = Some (VerifiedBadge ''bg-destructive'' (Fixed ''0.0''))"
  using getVerificationBadge_null_percentage
    [of "[\<lparr>id_program = ''p1'', name_program = ''Camp'', verification_enabled = True\<rparr>]"
        "\<lparr>id_registration = ''r2'', program_id = ''p1'', answers_fixed = None,
          created_at = ''2026-02-03T09:12:54Z'', verification_status = ''verified'',
          percentage = None, total_score = None, max_score = None,
          verification_scores = None, verified_at = None, verified_by = None\<rparr>"
        "\<lparr>id_program = ''p1'', name_program = ''Camp'', verification_enabled = True\<rparr>"]
  by (simp add: findProgram_def)

section \<open>Properties of the customer rollup\<close>

lemma reduce_sum_those:
  "reduce_sum f cs s = map_option (\<lambda>vs. s + sum_list vs) (those (map f cs))"
proof (induction cs arbitrary: s)
  case Nil
  show ?case by simp
next
  case (Cons c cs)
  show ?case
  proof (cases "f c")
    case None
    then show ?thesis by simp
  next
    case (Some v)
    then show ?thesis
      by (simp add: Cons.IH option.map_comp comp_def add.assoc split: option.splits)
  qed
qed

lemma reduce_sum_cong_Some:
  assumes "reduce_sum f cs s = Some v"
    and "\<And>c w. c \<in> set cs \<Longrightarrow> f c = Some w \<Longrightarrow> g c = Some w"
  shows "reduce_sum g cs s = Some v"
  using assms
proof (induction cs arbitrary: s)
  case Nil
  then show ?case by simp
next
  case (Cons c cs)
  from Cons.prems(1) obtain w where w: "f c = Some w" and r: "reduce_sum f cs (s + w) = Some v"
    by (auto simp: bind_eq_Some_conv)
  have "g c = Some w" using Cons.prems(2) w by simp
  moreover have "reduce_sum g cs (s + w) = Some v"
    using Cons.IH[OF r] Cons.prems(2) by simp
  ultimately show ?case by simp
qed

lemma reduce_sum_total:
  assumes "\<And>c. c \<in> set cs \<Longrightarrow> \<exists>w. f c = Some w"
  shows "\<exists>v. reduce_sum f cs s = Some v"
  using assms
proof (induction cs arbitrary: s)
  case Nil
  show ?case by simp
next
  case (Cons c cs)
  from Cons.prems obtain w where w: "f c = Some w" by auto
  have "\<exists>v. reduce_sum f cs (s + w) = Some v"
    using Cons.IH Cons.prems by simp
  with w show ?case by simp
qed

lemma bounded_sound:
  "calculateTotalCustomers_bounded d allAgents a = Some v
   \<Longrightarrow> calculateTotalCustomers allAgents a = Some v"
proof (induction d arbitrary: a v)
  case 0
  then show ?case by simp
next
  case (Suc d)
  show ?case
  proof (cases "role a = pro")
    case True
    with Suc.prems show ?thesis by (simp add: calculateTotalCustomers.simps)
  next
    case False
    with Suc.prems have
      "reduce_sum (calculateTotalCustomers_bounded d allAgents) (childrenOf allAgents a) 0 = Some v"
      by simp
    then have "reduce_sum (calculateTotalCustomers allAgents) (childrenOf allAgents a) 0 = Some v"
      by (rule reduce_sum_cong_Some) (rule Suc.IH)
    with False show ?thesis by (subst calculateTotalCustomers.simps) simp
  qed
qed


lemma reduce_sum_Some_all:
  "reduce_sum f cs s = Some v \<Longrightarrow> c \<in> set cs \<Longrightarrow> \<exists>w. f c = Some w"
proof (induction cs arbitrary: s)
  case Nil
  then show ?case by simp
next
  case (Cons x xs)
  from Cons.prems(1) obtain w where w: "f x = Some w" and r: "reduce_sum f xs (s + w) = Some v"
    by (auto simp: bind_eq_Some_conv)
  show ?case
  proof (cases "c = x")
    case True
    with w show ?thesis by simp
  next
    case False
    with Cons.prems(2) have "c \<in> set xs" by simp
    with Cons.IH[OF r] show ?thesis .
  qed
qed

lemma calculateTotalCustomers_cycle_None:
  assumes closed: "\<And>x. x \<in> S \<Longrightarrow> role x \<noteq> pro \<and> (\<exists>c \<in> set (childrenOf allAgents x). c \<in> S)"
    and a: "a \<in> S"
  shows "calculateTotalCustomers allAgents a = None"
proof -
  have "allAgents = allAgents \<longrightarrow> x \<notin> S"
    if r: "calculateTotalCustomers allAgents x = Some y" for x y
  proof (rule calculateTotalCustomers.raw_induct
      [where P = "\<lambda>ag x y. ag = allAgents \<longrightarrow> x \<notin> S", OF _ r])
    fix f :: "PennyekartAgent list \<Rightarrow> PennyekartAgent \<Rightarrow> int option"
      and ag x and y :: int
    assume IH: "\<And>a b y. f a b = Some y \<Longrightarrow> a = allAgents \<longrightarrow> b \<notin> S"
      and body: "(if role x = pro then Some (customer_count x)
                  else reduce_sum (f ag) (childrenOf ag x) 0) = Some y"
    show "ag = allAgents \<longrightarrow> x \<notin> S"
    proof (intro impI notI)
      assume ag: "ag = allAgents" and x: "x \<in> S"
      from closed[OF x] obtain c where np: "role x \<noteq> pro"
        and c: "c \<in> set (childrenOf allAgents x)" and cS: "c \<in> S"
        by blast
      from body np ag
      have "reduce_sum (f allAgents) (childrenOf allAgents x) 0 = Some y" by simp
      from reduce_sum_Some_all[OF this c] obtain w where "f allAgents c = Some w" ..
      from IH[OF this] cS show False by simp
    qed
  qed
  with a show ?thesis
    by (cases "calculateTotalCustomers allAgents a") auto
qed

lemma role_level_le3: "role_level r \<le> 3"
  by (cases r) simp_all

lemma role_level_pro: "role_level r = 3 \<longleftrightarrow> r = pro"
  by (cases r) simp_all

lemma bounded_total:
  assumes wf: "\<forall>p \<in> insert a (set allAgents). \<forall>c \<in> set allAgents.
                 parent_agent_id c = Some (id_agent p)
                 \<longrightarrow> role_level (role p) < role_level (role c)"
  shows "p \<in> insert a (set allAgents) \<Longrightarrow> 4 \<le> role_level (role p) + d
         \<Longrightarrow> \<exists>v. calculateTotalCustomers_bounded d allAgents p = Some v"
proof (induction d arbitrary: p)
  case 0
  with role_level_le3[of "role p"] show ?case by simp
next
  case (Suc d)
  show ?case
  proof (cases "role p = pro")
    case True
    then show ?thesis by simp
  next
    case False
    have "\<exists>w. calculateTotalCustomers_bounded d allAgents c = Some w"
      if c: "c \<in> set (childrenOf allAgents p)" for c
    proof -
      from c have cin: "c \<in> set allAgents" and par: "parent_agent_id c = Some (id_agent p)"
        by (simp_all add: childrenOf_def)
      from wf Suc.prems(1) cin par have "role_level (role p) < role_level (role c)" by blast
      with Suc.prems(2) have "4 \<le> role_level (role c) + d" by simp
      with Suc.IH[of c] cin show ?thesis by simp
    qed
    then have "\<exists>v. reduce_sum (calculateTotalCustomers_bounded d allAgents)
                  (childrenOf allAgents p) 0 = Some v"
      by (rule reduce_sum_total)
    with False show ?thesis by simp
  qed
qed


text \<open>
  C2. For every agent and every agent list: a \<open>pro\<close> node yields its own
  \<open>customer_count\<close>; any other node yields the sum of the results of
  \<open>calculateTotalCustomers\<close> over its direct children (and does not return where the
  call on a child does not return), the direct children being exactly the agents of the
  list whose \<open>parent_agent_id\<close> equals the node's id. Consequently the result is 0 for
  a \<open>pro\<close> node with \<open>customer_count\<close> 0 and for a node of another role without
  children.
\<close>

theorem calculateTotalCustomers_rule:
  "(role a = pro \<longrightarrow> calculateTotalCustomers allAgents a = Some (customer_count a))
   \<and> (role a \<noteq> pro \<longrightarrow>
        calculateTotalCustomers allAgents a
          = map_option sum_list
              (those (map (calculateTotalCustomers allAgents) (childrenOf allAgents a))))
   \<and> set (childrenOf allAgents a)
        = {c \<in> set allAgents. parent_agent_id c = Some (id_agent a)}
   \<and> (role a = pro \<and> customer_count a = 0 \<longrightarrow> calculateTotalCustomers allAgents a = Some 0)
   \<and> (role a \<noteq> pro \<and> childrenOf allAgents a = []
        \<longrightarrow> calculateTotalCustomers allAgents a = Some 0)"
proof -
  have p: "role a = pro \<longrightarrow> calculateTotalCustomers allAgents a = Some (customer_count a)"
    by (subst calculateTotalCustomers.simps) simp
  have n: "role a \<noteq> pro \<longrightarrow>
        calculateTotalCustomers allAgents a
          = map_option sum_list
              (those (map (calculateTotalCustomers allAgents) (childrenOf allAgents a)))"
    by (subst calculateTotalCustomers.simps) (simp add: reduce_sum_those)
  have s: "set (childrenOf allAgents a)
        = {c \<in> set allAgents. parent_agent_id c = Some (id_agent a)}"
    by (simp add: childrenOf_def)
  have z: "role a \<noteq> pro \<and> childrenOf allAgents a = []
        \<longrightarrow> calculateTotalCustomers allAgents a = Some 0"
    by (subst calculateTotalCustomers.simps) simp
  from p n s z show ?thesis by simp
qed

theorem calculateTotalCustomers_rule_witness:
  "calculateTotalCustomers
     [mk_agent ''T'' team_leader None 0, mk_agent ''C'' coordinator (Some ''T'') 0,
      mk_agent ''G'' group_leader (Some ''C'') 0, mk_agent ''P1'' pro (Some ''G'') 5,
      mk_agent ''P2'' pro (Some ''G'') 3]
     (mk_agent ''P1'' pro (Some ''G'') 5) = Some 5
   \<and> calculateTotalCustomers
     [mk_agent ''T'' team_leader None 0, mk_agent ''C'' coordinator (Some ''T'') 0,
      mk_agent ''G'' group_leader (Some ''C'') 0, mk_agent ''P1'' pro (Some ''G'') 5,
      mk_agent ''P2'' pro (Some ''G'') 3]
     (mk_agent ''G'' group_leader (Some ''C'') 0) = Some 8
   \<and> calculateTotalCustomers
     [mk_agent ''T'' team_leader None 0, mk_agent ''C'' coordinator (Some ''T'') 0,
      mk_agent ''G'' group_leader (Some ''C'') 0, mk_agent ''P1'' pro (Some ''G'') 5,
      mk_agent ''P2'' pro (Some ''G'') 3]
     (mk_agent ''Q'' pro (Some ''G'') 0) = Some 0
   \<and> calculateTotalCustomers
     [mk_agent ''T'' team_leader None 0, mk_agent ''C'' coordinator (Some ''T'') 0,
      mk_agent ''G'' group_leader (Some ''C'') 0, mk_agent ''P1'' pro (Some ''G'') 5,
      mk_agent ''P2'' pro (Some ''G'') 3]
     (mk_agent ''H'' group_leader (Some ''C'') 0) = Some 0"
proof -
  let ?all = "[mk_agent ''T'' team_leader None 0, mk_agent ''C'' coordinator (Some ''T'') 0,
      mk_agent ''G'' group_leader (Some ''C'') 0, mk_agent ''P1'' pro (Some ''G'') 5,
      mk_agent ''P2'' pro (Some ''G'') 3]"
  have p1: "calculateTotalCustomers ?all (mk_agent ''P1'' pro (Some ''G'') 5) = Some 5"
    using calculateTotalCustomers_rule [of "mk_agent ''P1'' pro (Some ''G'') 5" ?all]
    by simp
  have p2: "calculateTotalCustomers ?all (mk_agent ''P2'' pro (Some ''G'') 3) = Some 3"
    using calculateTotalCustomers_rule [of "mk_agent ''P2'' pro (Some ''G'') 3" ?all]
    by simp
  have g: "calculateTotalCustomers ?all (mk_agent ''G'' group_leader (Some ''C'') 0) = Some 8"
    using calculateTotalCustomers_rule [of "mk_agent ''G'' group_leader (Some ''C'') 0" ?all]
      p1 p2
    by (simp add: childrenOf_def)
  have q: "calculateTotalCustomers ?all (mk_agent ''Q'' pro (Some ''G'') 0) = Some 0"
    using calculateTotalCustomers_rule [of "mk_agent ''Q'' pro (Some ''G'') 0" ?all]
    by simp
  have h: "calculateTotalCustomers ?all (mk_agent ''H'' group_leader (Some ''C'') 0) = Some 0"
    using calculateTotalCustomers_rule [of "mk_agent ''H'' group_leader (Some ''C'') 0" ?all]
    by (simp add: childrenOf_def)
  from p1 g q h show ?thesis by simp
qed

text \<open>
  C3, as the code has it. \<open>calculateTotalCustomers\<close> has no depth bound and no
  \<open>CycleDetectedError\<close>. It terminates on every agent list whose parent links respect
  the role order, that is, where each child of the node and of every listed agent has a
  role strictly below its parent's: the call then returns a number, with at most four
  nested activations, the number of role levels.
\<close>

theorem calculateTotalCustomers_wellformed:
  assumes "\<forall>p \<in> insert a (set allAgents). \<forall>c \<in> set allAgents.
             parent_agent_id c = Some (id_agent p) \<longrightarrow> role_level (role p) < role_level (role c)"
  shows "\<exists>v. calculateTotalCustomers_bounded 4 allAgents a = Some v
             \<and> calculateTotalCustomers allAgents a = Some v"
proof -
  have "\<exists>v. calculateTotalCustomers_bounded 4 allAgents a = Some v"
    using bounded_total[OF assms, of a 4] by simp
  then obtain v where v: "calculateTotalCustomers_bounded 4 allAgents a = Some v" ..
  from bounded_sound[OF v] v show ?thesis by blast
qed

theorem calculateTotalCustomers_wellformed_witness:
  "calculateTotalCustomers
     [mk_agent ''T'' team_leader None 0, mk_agent ''C'' coordinator (Some ''T'') 0,
      mk_agent ''G'' group_leader (Some ''C'') 0, mk_agent ''P1'' pro (Some ''G'') 5,
      mk_agent ''P2'' pro (Some ''G'') 3]
     (mk_agent ''T'' team_leader None 0) = Some 8"
proof -
  let ?all = "[mk_agent ''T'' team_leader None 0, mk_agent ''C'' coordinator (Some ''T'') 0,
      mk_agent ''G'' group_leader (Some ''C'') 0, mk_agent ''P1'' pro (Some ''G'') 5,
      mk_agent ''P2'' pro (Some ''G'') 3]"
  have b: "calculateTotalCustomers_bounded 4 ?all (mk_agent ''T'' team_leader None 0) = Some 8"
    by (simp add: eval_nat_numeral childrenOf_def)
  show ?thesis
    using calculateTotalCustomers_wellformed [of "mk_agent ''T'' team_leader None 0" ?all] b
    by simp
qed

text \<open>
  The claim C3 fails on the code. On two agents that are each other's parent,
  \<open>calculateTotalCustomers\<close> does not return at all, so it neither terminates nor
  reports a cycle; and on an acyclic chain with a coordinator below a coordinator it
  returns a number although the computation nests five calls, more than the four role
  levels.
\<close>

theorem calculateTotalCustomers_cycle_counterexample:
  "calculateTotalCustomers
     [mk_agent ''A'' coordinator (Some ''B'') 0, mk_agent ''B'' group_leader (Some ''A'') 0]
     (mk_agent ''A'' coordinator (Some ''B'') 0) = None
   \<and> calculateTotalCustomers
     [mk_agent ''T'' team_leader None 0, mk_agent ''C1'' coordinator (Some ''T'') 0,
      mk_agent ''C2'' coordinator (Some ''C1'') 0, mk_agent ''G'' group_leader (Some ''C2'') 0,
      mk_agent ''P'' pro (Some ''G'') 7]
     (mk_agent ''T'' team_leader None 0) = Some 7
   \<and> calculateTotalCustomers_bounded 4
     [mk_agent ''T'' team_leader None 0, mk_agent ''C1'' coordinator (Some ''T'') 0,
      mk_agent ''C2'' coordinator (Some ''C1'') 0, mk_agent ''G'' group_leader (Some ''C2'') 0,
      mk_agent ''P'' pro (Some ''G'') 7]
     (mk_agent ''T'' team_leader None 0) = None"
proof -
  let ?A = "mk_agent ''A'' coordinator (Some ''B'') 0"
  let ?B = "mk_agent ''B'' group_leader (Some ''A'') 0"
  let ?chain = "[mk_agent ''T'' team_leader None 0, mk_agent ''C1'' coordinator (Some ''T'') 0,
      mk_agent ''C2'' coordinator (Some ''C1'') 0, mk_agent ''G'' group_leader (Some ''C2'') 0,
      mk_agent ''P'' pro (Some ''G'') 7]"
  have "calculateTotalCustomers [?A, ?B] ?A = None"
  proof (rule calculateTotalCustomers_cycle_None [where S = "{?A, ?B}"])
    fix x assume "x \<in> {?A, ?B}"
    then show "role x \<noteq> pro \<and> (\<exists>c \<in> set (childrenOf [?A, ?B] x). c \<in> {?A, ?B})"
      by (auto simp: childrenOf_def)
  next
    show "?A \<in> {?A, ?B}" by simp
  qed
  moreover have "calculateTotalCustomers_bounded 5 ?chain (mk_agent ''T'' team_leader None 0) = Some 7"
    by (simp add: eval_nat_numeral childrenOf_def)
  then have "calculateTotalCustomers ?chain (mk_agent ''T'' team_leader None 0) = Some 7"
    by (rule bounded_sound)
  moreover have "calculateTotalCustomers_bounded 4 ?chain (mk_agent ''T'' team_leader None 0) = None"
    by (simp add: eval_nat_numeral childrenOf_def)
  ultimately show ?thesis by simp
qed

section \<open>Properties of fetchRegistrations\<close>

lemma those_map_Some:
  "those (map f xs) = Some ys
   \<Longrightarrow> length ys = length xs \<and> (\<forall>(t, r) \<in> set (zip ys xs). f r = Some t)"
proof (induction xs arbitrary: ys)
  case Nil
  then show ?case by simp
next
  case (Cons x xs)
  from Cons.prems obtain t ts where t: "f x = Some t" and ts: "those (map f xs) = Some ts"
    and ys: "ys = t # ts"
    by (auto split: option.splits)
  from Cons.IH[OF ts] t ys show ?case by simp
qed

lemma those_map_snd:
  "(\<forall>(t, r) \<in> set ps. f r = Some t) \<Longrightarrow> those (map f (map snd ps)) = Some (map fst ps)"
  by (induction ps) auto

lemma those_map_total:
  "(\<forall>x \<in> set xs. f x \<noteq> None) \<Longrightarrow> \<exists>ys. those (map f xs) = Some ys"
  by (induction xs) auto

lemma sorted_neg_fst:
  "sorted (map (\<lambda>(t :: int, r). - t) ps) \<Longrightarrow> sorted_wrt (\<ge>) (map fst ps)"
  by (induction ps) (auto simp: case_prod_beta)

lemma sortByCreatedAt_Loaded:
  assumes "sortByCreatedAt getTime regs = Loaded out"
  shows "\<exists>ts. those (map (createdTime getTime) out) = Some ts \<and> sorted_wrt (\<ge>) ts
           \<and> mset out = mset regs"
proof -
  from assms obtain tms where tms: "those (map (createdTime getTime) regs) = Some tms"
    and out: "out = map snd (sort_key (\<lambda>(t, r). - t) (zip tms regs))"
    by (auto simp: sortByCreatedAt_def split: option.splits)
  let ?ps = "sort_key (\<lambda>(t, r). - t) (zip tms regs)"
  from those_map_Some[OF tms] have len: "length tms = length regs"
    and ok: "\<forall>(t, r) \<in> set (zip tms regs). createdTime getTime r = Some t"
    by simp_all
  from ok have "\<forall>(t, r) \<in> set ?ps. createdTime getTime r = Some t" by simp
  then have a: "those (map (createdTime getTime) out) = Some (map fst ?ps)"
    unfolding out by (rule those_map_snd)
  have "sorted (map (\<lambda>(t, r). - t) ?ps)" by (rule sorted_sort_key)
  then have b: "sorted_wrt (\<ge>) (map fst ?ps)" by (rule sorted_neg_fst)
  have "mset out = image_mset snd (mset (zip tms regs))"
    unfolding out by simp
  also have "\<dots> = mset (map snd (zip tms regs))" by simp
  also have "\<dots> = mset regs" using len by simp
  finally have c: "mset out = mset regs" .
  from a b c show ?thesis by blast
qed


lemma fetchAll_concat:
  assumes "\<forall>i \<in> set ids. fetch i \<noteq> Threw"
  shows "fetchAll fetch ids acc
         = Some (acc @ concat (map (\<lambda>i. case fetch i of Ok regs \<Rightarrow> regs | _ \<Rightarrow> []) ids))"
  using assms
proof (induction ids arbitrary: acc)
  case Nil
  show ?case by simp
next
  case (Cons i ids)
  then have rest: "\<forall>i \<in> set ids. fetch i \<noteq> Threw" and i: "fetch i \<noteq> Threw"
    by simp_all
  show ?case
  proof (cases "fetch i")
    case Threw
    with i show ?thesis by simp
  next
    case NotOk
    then show ?thesis using Cons.IH[OF rest] by simp
  next
    case (Ok regs)
    then show ?thesis using Cons.IH[OF rest] by simp
  qed
qed

lemma those_map_nth:
  "those (map f xs) = Some ys
   \<Longrightarrow> length ys = length xs \<and> (\<forall>k < length xs. f (xs ! k) = Some (ys ! k))"
proof (induction xs arbitrary: ys)
  case Nil
  then show ?case by simp
next
  case (Cons x xs)
  from Cons.prems obtain t ts where t: "f x = Some t" and ts: "those (map f xs) = Some ts"
    and ys: "ys = t # ts"
    by (auto split: option.splits)
  from Cons.IH[OF ts] have l: "length ts = length xs"
    and n: "\<forall>k < length xs. f (xs ! k) = Some (ts ! k)"
    by simp_all
  have "\<forall>k < length (x # xs). f ((x # xs) ! k) = Some (ys ! k)"
  proof (intro allI impI)
    fix k assume "k < length (x # xs)"
    then show "f ((x # xs) ! k) = Some (ys ! k)"
      using t n ys by (cases k) simp_all
  qed
  with l ys show ?case by simp
qed

lemma filterByPanchayath_explicit:
  "filterByPanchayath filterPanchayathId regs
   = (if filterPanchayathId = None \<or> filterPanchayathId = Some [] then regs
      else filter (\<lambda>r. \<exists>fx. answers_fixed r = Some fx \<and> panchayath_id fx = filterPanchayathId)
             regs)"
proof -
  have m: "matchesPanchayath fid
        = (\<lambda>r. \<exists>fx. answers_fixed r = Some fx \<and> panchayath_id fx = Some fid)" for fid
    by (rule ext) (simp add: matchesPanchayath_def split: option.splits)
  show ?thesis
  proof (cases filterPanchayathId)
    case None
    then show ?thesis by (simp add: filterByPanchayath_def)
  next
    case (Some fid)
    then show ?thesis by (simp add: filterByPanchayath_def m)
  qed
qed

text \<open>
  C9. Let \<open>fetched\<close> be the registrations delivered by the requests for the programs to
  fetch, in the order of the requests. When the dialog is open, the admin token is
  present, no request raises and the \<open>created_at\<close> of the registrations to be shown
  parse as dates, \<open>fetchRegistrations\<close> produces a list \<open>out\<close> that is sorted by
  \<open>created_at\<close> in descending order, newest first: the times
  \<open>getTime (created_at r)\<close> of its entries never increase along the list. When a
  panchayath filter id is supplied, \<open>out\<close> contains exactly (with multiplicity) the
  fetched registrations whose \<open>answers._fixed.panchayath_id\<close> equals the filter id;
  without a filter it contains exactly the fetched registrations.
\<close>

theorem fetchRegistrations_sorted_filtered:
  assumes "isOpen" and "adminToken = Some token" and "token \<noteq> []"
    and "ids = (if selectedProgramId = ''all'' then map id_program programs
                else [selectedProgramId])"
    and "\<forall>i \<in> set ids. fetch i \<noteq> Threw"
    and "fetched = concat (map (\<lambda>i. case fetch i of Ok regs \<Rightarrow> regs | _ \<Rightarrow> []) ids)"
    and "\<forall>r \<in> set fetched.
           (filterPanchayathId = None \<or> filterPanchayathId = Some []
            \<or> (\<exists>fx. answers_fixed r = Some fx \<and> panchayath_id fx = filterPanchayathId))
           \<longrightarrow> getTime (created_at r) \<noteq> None"
  shows "\<exists>out ts.
           fetchRegistrations isOpen adminToken selectedProgramId programs filterPanchayathId
             fetch getTime = Loaded out
           \<and> those (map (\<lambda>r. getTime (created_at r)) out) = Some ts \<and> sorted_wrt (\<ge>) ts
           \<and> (\<forall>j < length out. \<forall>k < j.
                 \<exists>tk tj. getTime (created_at (out ! k)) = Some tk
                       \<and> getTime (created_at (out ! j)) = Some tj \<and> tj \<le> tk)
           \<and> (\<forall>fid. filterPanchayathId = Some fid \<and> fid \<noteq> []
                 \<longrightarrow> mset out
                     = mset (filter (\<lambda>r. \<exists>fx. answers_fixed r = Some fx
                                            \<and> panchayath_id fx = Some fid) fetched))
           \<and> (filterPanchayathId = None \<or> filterPanchayathId = Some []
                 \<longrightarrow> mset out = mset fetched)"
proof -
  let ?sel = "filterByPanchayath filterPanchayathId fetched"
  have fa: "fetchAll fetch (programsToFetch selectedProgramId programs) [] = Some fetched"
    using fetchAll_concat[OF assms(5), of "[]"] assms(4,6)
    by (simp add: programsToFetch_def)
  have "\<forall>r \<in> set ?sel. createdTime getTime r \<noteq> None"
    using assms(7) by (auto simp: createdTime_def filterByPanchayath_explicit)
  then obtain tms where "those (map (createdTime getTime) ?sel) = Some tms"
    using those_map_total by blast
  then obtain out where out: "sortByCreatedAt getTime ?sel = Loaded out"
    by (simp add: sortByCreatedAt_def)
  from assms(1-3) fa out
  have f: "fetchRegistrations isOpen adminToken selectedProgramId programs filterPanchayathId
             fetch getTime = Loaded out"
    by (simp add: fetchRegistrations_def truthy_def)
  from sortByCreatedAt_Loaded[OF out] obtain ts
    where ts0: "those (map (createdTime getTime) out) = Some ts" and srt: "sorted_wrt (\<ge>) ts"
      and m: "mset out = mset ?sel"
    by blast
  have eq: "createdTime getTime = (\<lambda>r. getTime (created_at r))"
    by (rule ext) (simp add: createdTime_def)
  from ts0 have ts: "those (map (\<lambda>r. getTime (created_at r)) out) = Some ts"
    by (simp only: eq)
  from those_map_nth[OF ts] have len: "length ts = length out"
    and nth: "\<forall>k < length out. getTime (created_at (out ! k)) = Some (ts ! k)"
    by simp_all
  have pw: "\<forall>j < length out. \<forall>k < j.
                 \<exists>tk tj. getTime (created_at (out ! k)) = Some tk
                       \<and> getTime (created_at (out ! j)) = Some tj \<and> tj \<le> tk"
  proof (intro allI impI)
    fix j k assume j: "j < length out" and k: "k < j"
    from srt k j len have "ts ! j \<le> ts ! k"
      by (simp add: sorted_wrt_iff_nth_less)
    moreover from nth j k have "getTime (created_at (out ! k)) = Some (ts ! k)"
      "getTime (created_at (out ! j)) = Some (ts ! j)"
      by simp_all
    ultimately show "\<exists>tk tj. getTime (created_at (out ! k)) = Some tk
                       \<and> getTime (created_at (out ! j)) = Some tj \<and> tj \<le> tk"
      by blast
  qed
  have c1: "\<forall>fid. filterPanchayathId = Some fid \<and> fid \<noteq> []
                 \<longrightarrow> mset out
                     = mset (filter (\<lambda>r. \<exists>fx. answers_fixed r = Some fx
                                            \<and> panchayath_id fx = Some fid) fetched)"
    using m by (simp add: filterByPanchayath_explicit)
  have c2: "filterPanchayathId = None \<or> filterPanchayathId = Some []
                 \<longrightarrow> mset out = mset fetched"
    using m by (auto simp: filterByPanchayath_explicit)
  from f ts srt pw c1 c2 show ?thesis by blast
qed

theorem fetchRegistrations_sorted_filtered_witness:
  "fetchRegistrations True (Some ''token'') ''all''
       [\<lparr>id_program = ''p1'', name_program = ''Camp'', verification_enabled = True\<rparr>]
       (Some ''pan1'')
       (\<lambda>i. if i = ''p1''
            then Ok [mk_reg ''r1'' ''p1'' (Some ''pan1'') ''2026-02-01'',
                     mk_reg ''r2'' ''p1'' (Some ''pan2'') ''2026-02-03'',
                     mk_reg ''r3'' ''p1'' (Some ''pan1'') ''2026-02-02'']
            else NotOk)
       (\<lambda>s. if s = ''2026-02-01'' then Some 1769904000000
            else if s = ''2026-02-02'' then Some 1769990400000
            else if s = ''2026-02-03'' then Some 1770076800000 else None)
     = Loaded [mk_reg ''r3'' ''p1'' (Some ''pan1'') ''2026-02-02'',
               mk_reg ''r1'' ''p1'' (Some ''pan1'') ''2026-02-01'']"
proof -
  let ?fetch = "\<lambda>i. if i = ''p1''
            then Ok [mk_reg ''r1'' ''p1'' (Some ''pan1'') ''2026-02-01'',
                     mk_reg ''r2'' ''p1'' (Some ''pan2'') ''2026-02-03'',
                     mk_reg ''r3'' ''p1'' (Some ''pan1'') ''2026-02-02'']
            else NotOk"
  let ?getTime = "\<lambda>s. if s = ''2026-02-01'' then Some (1769904000000 :: int)
            else if s = ''2026-02-02'' then Some 1769990400000
            else if s = ''2026-02-03'' then Some 1770076800000 else None"
  let ?programs = "[\<lparr>id_program = ''p1'', name_program = ''Camp'', verification_enabled = True\<rparr>]"
  let ?r1 = "mk_reg ''r1'' ''p1'' (Some ''pan1'') ''2026-02-01''"
  let ?r2 = "mk_reg ''r2'' ''p1'' (Some ''pan2'') ''2026-02-03''"
  let ?r3 = "mk_reg ''r3'' ''p1'' (Some ''pan1'') ''2026-02-02''"
  have h4: "[''p1''] = (if ''all'' = ''all'' then map id_program ?programs else [''all''])"
    by simp
  have h5: "\<forall>i \<in> set [''p1'']. ?fetch i \<noteq> Threw" by simp
  have h6: "[?r1, ?r2, ?r3]
            = concat (map (\<lambda>i. case ?fetch i of Ok regs \<Rightarrow> regs | _ \<Rightarrow> []) [''p1''])"
    by simp
  have h7: "\<forall>r \<in> set [?r1, ?r2, ?r3].
           (Some ''pan1'' = None \<or> Some ''pan1'' = Some []
            \<or> (\<exists>fx. answers_fixed r = Some fx \<and> panchayath_id fx = Some ''pan1''))
           \<longrightarrow> ?getTime (created_at r) \<noteq> None"
    by simp
  from fetchRegistrations_sorted_filtered
    [of True "Some ''token''" "''token''" "[''p1'']" "''all''" ?programs ?fetch
        "[?r1, ?r2, ?r3]" "Some ''pan1''" ?getTime, OF TrueI refl _ h4 h5 h6 h7]
  obtain out ts where
    a: "fetchRegistrations True (Some ''token'') ''all'' ?programs (Some ''pan1'') ?fetch ?getTime
          = Loaded out"
    and pw: "\<forall>j < length out. \<forall>k < j.
                 \<exists>tk tj. ?getTime (created_at (out ! k)) = Some tk
                       \<and> ?getTime (created_at (out ! j)) = Some tj \<and> tj \<le> tk"
    and c: "\<forall>fid. Some ''pan1'' = Some fid \<and> fid \<noteq> []
              \<longrightarrow> mset out
                  = mset (filter (\<lambda>r. \<exists>fx. answers_fixed r = Some fx
                                         \<and> panchayath_id fx = Some fid) [?r1, ?r2, ?r3])"
    by auto
  from c have ms: "mset out = mset [?r1, ?r3]" by simp
  from mset_eq_length[OF ms] have len: "length out = 2" by simp
  then obtain x y where xy: "out = [x, y]"
    by (cases out; cases "tl out") auto
  from ms xy have d: "(x = ?r1 \<and> y = ?r3) \<or> (x = ?r3 \<and> y = ?r1)"
    by (auto simp: add_eq_conv_ex)
  have l1: "(1::nat) < length out" using len by simp
  have l0: "(0::nat) < 1" by simp
  note o = pw[rule_format, OF l1 l0]
  have "\<not> (x = ?r1 \<and> y = ?r3)"
  proof
    assume "x = ?r1 \<and> y = ?r3"
    with xy have "out = [?r1, ?r3]" by simp
    with o show False by simp
  qed
  with d have "x = ?r3 \<and> y = ?r1" by blast
  with a xy show ?thesis by simp
qed

section \<open>Properties of the scoring engine\<close>

lemma firstInvalid_None: "firstInvalid xs = None \<longleftrightarrow> (\<forall>(q, v) \<in> set xs. validScore v)"
  by (induction xs rule: firstInvalid.induct) auto

lemma firstInvalid_Some:
  "firstInvalid xs = Some q \<Longrightarrow> \<exists>v. (q, v) \<in> set xs \<and> \<not> validScore v"
  by (induction xs rule: firstInvalid.induct) (auto split: if_splits)

lemma sum_list_const:
  "(\<forall>(q, v) \<in> set xs. v = c) \<Longrightarrow> sum_list (map snd xs) = of_nat (length xs) * (c :: rat)"
  by (induction xs) (auto simp: algebra_simps)

lemma coversExactly_length:
  assumes "coversExactly questions scoresByQuestion"
  shows "length scoresByQuestion = length questions"
proof -
  from assms have d1: "distinct (map fst scoresByQuestion)"
    and d2: "distinct (map id_question questions)"
    and s: "set (map fst scoresByQuestion) = set (map id_question questions)"
    by (simp_all add: coversExactly_def)
  have "length scoresByQuestion = card (set (map fst scoresByQuestion))"
    using distinct_card[OF d1] by simp
  also have "\<dots> = card (set (map id_question questions))" by (simp only: s)
  also have "\<dots> = length questions" using distinct_card[OF d2] by simp
  finally show ?thesis .
qed

text \<open>
  C4. For every registration, question set and score map whose supplied scores are valid,
  \<open>score\<close> returns a result with \<open>total_score\<close> the sum of the supplied scores,
  \<open>max_score\<close> ten times the number of questions, and \<open>percentage\<close> equal to
  \<open>100 * total_score / max_score\<close> when \<open>max_score > 0\<close> and to 0 when
  \<open>max_score = 0\<close>, which is the case of the empty question set. Hence, for a non-empty
  question set, scoring every question 0 gives percentage 0 and scoring every question 10
  gives percentage 100.
\<close>

theorem score_aggregates:
  assumes valid: "\<forall>(q, v) \<in> set scoresByQuestion. validScore v"
  shows "\<exists>res. score reg questions scoresByQuestion actor now = Inr res
           \<and> result_total_score res = sum_list (map snd scoresByQuestion)
           \<and> result_max_score res = 10 * of_nat (length questions)
           \<and> result_percentage res
               = (if result_max_score res > 0
                  then 100 * result_total_score res / result_max_score res else 0)
           \<and> (questions = [] \<longleftrightarrow> result_max_score res = 0)
           \<and> (questions \<noteq> [] \<and> (\<forall>(q, v) \<in> set scoresByQuestion. v = 0)
                \<longrightarrow> result_percentage res = 0)
           \<and> (questions \<noteq> [] \<and> coversExactly questions scoresByQuestion
                \<and> (\<forall>(q, v) \<in> set scoresByQuestion. v = 10)
                \<longrightarrow> result_percentage res = 100)"
proof -
  let ?total = "sum_list (map snd scoresByQuestion)"
  let ?max = "10 * of_nat (length questions) :: rat"
  let ?pct = "if ?max > 0 then 100 * ?total / ?max else 0"
  let ?res = "\<lparr>result_status = ''verified'', result_scores = scoresByQuestion,
                  result_total_score = ?total, result_max_score = ?max,
                  result_percentage = ?pct, result_verified_by = actor,
                  result_verified_at = now\<rparr>"
  from valid have "firstInvalid scoresByQuestion = None" by (simp add: firstInvalid_None)
  then have r: "score reg questions scoresByQuestion actor now = Inr ?res"
    by (simp add: score_def Let_def)
  have z: "questions \<noteq> [] \<and> (\<forall>(q, v) \<in> set scoresByQuestion. v = 0) \<longrightarrow> ?pct = 0"
  proof
    assume "questions \<noteq> [] \<and> (\<forall>(q, v) \<in> set scoresByQuestion. v = 0)"
    then have "?total = 0" using sum_list_const[of scoresByQuestion 0] by simp
    then show "?pct = 0" by simp
  qed
  have t: "questions \<noteq> [] \<and> coversExactly questions scoresByQuestion
                \<and> (\<forall>(q, v) \<in> set scoresByQuestion. v = 10) \<longrightarrow> ?pct = 100"
  proof
    assume a: "questions \<noteq> [] \<and> coversExactly questions scoresByQuestion
                \<and> (\<forall>(q, v) \<in> set scoresByQuestion. v = 10)"
    then have "?total = of_nat (length scoresByQuestion) * 10"
      using sum_list_const[of scoresByQuestion 10] by simp
    moreover have "length scoresByQuestion = length questions"
      using a coversExactly_length by blast
    ultimately have "?total = ?max" by simp
    moreover have "?max > 0" using a by simp
    ultimately show "?pct = 100" by simp
  qed
  have e: "questions = [] \<longleftrightarrow> ?max = 0" by simp
  have sel: "result_total_score ?res = ?total" "result_max_score ?res = ?max"
    "result_percentage ?res = ?pct"
    by simp_all
  show ?thesis
  proof (intro exI[of _ ?res] conjI)
    show "score reg questions scoresByQuestion actor now = Inr ?res" by (rule r)
    show "result_total_score ?res = sum_list (map snd scoresByQuestion)" by (rule sel(1))
    show "result_max_score ?res = 10 * of_nat (length questions)" by (rule sel(2))
    show "result_percentage ?res
               = (if result_max_score ?res > 0
                  then 100 * result_total_score ?res / result_max_score ?res else 0)"
      by (simp only: sel)
    show "questions = [] \<longleftrightarrow> result_max_score ?res = 0"
      using e by (simp only: sel)
    show "questions \<noteq> [] \<and> (\<forall>(q, v) \<in> set scoresByQuestion. v = 0)
                \<longrightarrow> result_percentage ?res = 0"
      using z by (simp only: sel)
    show "questions \<noteq> [] \<and> coversExactly questions scoresByQuestion
                \<and> (\<forall>(q, v) \<in> set scoresByQuestion. v = 10)
                \<longrightarrow> result_percentage ?res = 100"
      using t by (simp only: sel)
  qed
qed

text \<open>
  C5. For every score map that has, for some question, a value that is not an integer in
  \<open>[0,10]\<close> (11, -1 and 7.5 are such values), \<open>score\<close> fails with an
  \<open>InvalidScoreError\<close> that identifies a question with such a value, that very question
  when it is the only one, and the verification act hands the registration back unchanged:
  its status and all its verification fields are as before, so a pending registration
  remains pending.
\<close>

theorem score_rejects_invalid:
  assumes "(q, v) \<in> set scoresByQuestion" and "\<not> validScore v"
  shows "\<exists>q'. score reg questions scoresByQuestion actor now = Inl (InvalidScoreError q')
           \<and> (\<exists>v'. (q', v') \<in> set scoresByQuestion \<and> \<not> validScore v')
           \<and> ((\<forall>(p, w) \<in> set scoresByQuestion. \<not> validScore w \<longrightarrow> p = q) \<longrightarrow> q' = q)
           \<and> verificationAct reg questions scoresByQuestion actor now
               = (Some (InvalidScoreError q'), reg)
           \<and> \<not> validScore 11 \<and> \<not> validScore (- 1) \<and> \<not> validScore (15 / 2)"
proof -
  from assms have "firstInvalid scoresByQuestion \<noteq> None"
    by (auto simp: firstInvalid_None)
  then obtain q' where q': "firstInvalid scoresByQuestion = Some q'" by blast
  from firstInvalid_Some[OF q'] obtain v' where v': "(q', v') \<in> set scoresByQuestion"
    "\<not> validScore v'" by blast
  have s: "score reg questions scoresByQuestion actor now = Inl (InvalidScoreError q')"
    using q' by (simp add: score_def)
  then have a: "verificationAct reg questions scoresByQuestion actor now
               = (Some (InvalidScoreError q'), reg)"
    by (simp add: verificationAct_def)
  have u: "(\<forall>(p, w) \<in> set scoresByQuestion. \<not> validScore w \<longrightarrow> p = q) \<longrightarrow> q' = q"
    using v' by blast
  have n: "\<not> validScore 11 \<and> \<not> validScore (- 1) \<and> \<not> validScore (15 / 2)"
    by code_simp
  from s v' u a n show ?thesis by blast
qed

lemma score_Inr_status:
  "score reg questions scoresByQuestion actor now = Inr res \<Longrightarrow> result_status res = ''verified''"
  by (cases "firstInvalid scoresByQuestion") (auto simp: score_def Let_def)

lemma verificationAct_status:
  "verification_status (snd (verificationAct reg questions scoresByQuestion actor now))
     = (if fst (verificationAct reg questions scoresByQuestion actor now) = None
        then ''verified'' else verification_status reg)"
proof (cases "score reg questions scoresByQuestion actor now")
  case (Inl e)
  then show ?thesis by (simp add: verificationAct_def)
next
  case (Inr res)
  then have "result_status res = ''verified''" by (rule score_Inr_status)
  with Inr show ?thesis by (simp add: verificationAct_def persistVerification_def)
qed

lemma verificationAct_success_iff:
  "fst (verificationAct reg questions scoresByQuestion actor now) = None
   \<longleftrightarrow> (\<forall>(q, v) \<in> set scoresByQuestion. validScore v)"
proof (cases "firstInvalid scoresByQuestion")
  case None
  then show ?thesis
    using firstInvalid_None[of scoresByQuestion]
    by (simp add: verificationAct_def score_def Let_def)
next
  case (Some q)
  then show ?thesis
    using firstInvalid_None[of scoresByQuestion]
    by (simp add: verificationAct_def score_def)
qed

lemma verificationAct_overwrites:
  assumes "fst (verificationAct reg questions scoresByQuestion actor now) = None"
  shows "snd (verificationAct reg questions scoresByQuestion actor now)
         = reg\<lparr>verification_status := ''verified'',
               verification_scores := Some scoresByQuestion,
               total_score := Some (sum_list (map snd scoresByQuestion)),
               max_score := Some (10 * of_nat (length questions)),
               percentage := Some (if (10 * of_nat (length questions) :: rat) > 0
                                   then 100 * sum_list (map snd scoresByQuestion)
                                        / (10 * of_nat (length questions))
                                   else 0),
               verified_by := Some actor,
               verified_at := Some now\<rparr>"
proof (cases "firstInvalid scoresByQuestion")
  case None
  then show ?thesis
    by (simp add: verificationAct_def score_def persistVerification_def Let_def)
next
  case (Some q)
  with assms show ?thesis by (simp add: verificationAct_def score_def)
qed

lemma verificationAct_failure:
  assumes "fst (verificationAct reg questions scoresByQuestion actor now) \<noteq> None"
  shows "snd (verificationAct reg questions scoresByQuestion actor now) = reg"
proof (cases "score reg questions scoresByQuestion actor now")
  case (Inl e)
  then show ?thesis by (simp add: verificationAct_def)
next
  case (Inr res)
  with assms show ?thesis by (simp add: verificationAct_def)
qed

lemma runActs_verified:
  "verification_status reg = ''verified'' \<Longrightarrow> verification_status (runActs reg acts) = ''verified''"
proof (induction reg acts rule: runActs.induct)
  case (1 reg)
  then show ?case by simp
next
  case (2 reg questions scoresByQuestion actor now rest)
  then show ?case by (simp add: verificationAct_status)
qed

lemma runActs_check:
  "verification_status_check (verification_status reg)
   \<Longrightarrow> verification_status_check (verification_status (runActs reg acts))"
proof (induction reg acts rule: runActs.induct)
  case (1 reg)
  then show ?case by simp
next
  case (2 reg questions scoresByQuestion actor now rest)
  then show ?case by (simp add: verificationAct_status verification_status_check_def)
qed

text \<open>
  C6. A newly created registration has status \<open>pending\<close>. Through every sequence of
  verification acts the status satisfies the check constraint, that is, it is \<open>pending\<close>
  or \<open>verified\<close>. A verification act succeeds exactly when every supplied score is
  valid; it sets the status to \<open>verified\<close> when it succeeds and leaves the registration
  as it was when it fails. A verified registration stays verified through every sequence
  of acts, so there is no transition back to \<open>pending\<close>. A successful act on a
  registration, verified before or not, overwrites the whole verification result: the
  status, the score map, the total, the maximum, the percentage, the verifier and the
  time are those of the act, whatever they were before, and no other field changes.
\<close>

theorem verification_status_machine:
  "verification_status (insert_registration i pid fx created) = ''pending''
   \<and> verification_status_check (verification_status
        (runActs (insert_registration i pid fx created) acts))
   \<and> (verification_status_check (verification_status reg)
        \<longrightarrow> verification_status_check (verification_status (runActs reg acts)))
   \<and> (verification_status (snd (verificationAct reg questions scoresByQuestion actor now))
        = (if fst (verificationAct reg questions scoresByQuestion actor now) = None
           then ''verified'' else verification_status reg))
   \<and> (verification_status reg = ''verified''
        \<longrightarrow> verification_status (runActs reg acts) = ''verified'')
   \<and> (fst (verificationAct reg questions scoresByQuestion actor now) = None
        \<longrightarrow> verification_scores (snd (verificationAct reg questions scoresByQuestion actor now))
              = Some scoresByQuestion
            \<and> total_score (snd (verificationAct reg questions scoresByQuestion actor now))
              = Some (sum_list (map snd scoresByQuestion))
            \<and> max_score (snd (verificationAct reg questions scoresByQuestion actor now))
              = Some (10 * of_nat (length questions))
            \<and> verified_by (snd (verificationAct reg questions scoresByQuestion actor now))
              = Some actor
            \<and> verified_at (snd (verificationAct reg questions scoresByQuestion actor now))
              = Some now)
   \<and> (verification_status (runActs (insert_registration i pid fx created) acts) = ''pending''
        \<or> verification_status (runActs (insert_registration i pid fx created) acts)
            = ''verified'')
   \<and> (fst (verificationAct reg questions scoresByQuestion actor now) = None
        \<longleftrightarrow> (\<forall>(q, v) \<in> set scoresByQuestion. validScore v))
   \<and> (fst (verificationAct reg questions scoresByQuestion actor now) = None
        \<longrightarrow> percentage (snd (verificationAct reg questions scoresByQuestion actor now))
              = Some (if (10 * of_nat (length questions) :: rat) > 0
                      then 100 * sum_list (map snd scoresByQuestion)
                           / (10 * of_nat (length questions))
                      else 0)
            \<and> snd (verificationAct reg questions scoresByQuestion actor now)
              = reg\<lparr>verification_status := ''verified'',
                    verification_scores := Some scoresByQuestion,
                    total_score := Some (sum_list (map snd scoresByQuestion)),
                    max_score := Some (10 * of_nat (length questions)),
                    percentage := Some (if (10 * of_nat (length questions) :: rat) > 0
                                        then 100 * sum_list (map snd scoresByQuestion)
                                             / (10 * of_nat (length questions))
                                        else 0),
                    verified_by := Some actor,
                    verified_at := Some now\<rparr>)
   \<and> (fst (verificationAct reg questions scoresByQuestion actor now) \<noteq> None
        \<longrightarrow> snd (verificationAct reg questions scoresByQuestion actor now) = reg)"
proof -
  let ?act = "verificationAct reg questions scoresByQuestion actor now"
  let ?new = "insert_registration i pid fx created"
  let ?pct = "Some (if (10 * of_nat (length questions) :: rat) > 0
                      then 100 * sum_list (map snd scoresByQuestion)
                           / (10 * of_nat (length questions))
                      else 0)"
  let ?upd = "reg\<lparr>verification_status := ''verified'',
                    verification_scores := Some scoresByQuestion,
                    total_score := Some (sum_list (map snd scoresByQuestion)),
                    max_score := Some (10 * of_nat (length questions)),
                    percentage := ?pct,
                    verified_by := Some actor,
                    verified_at := Some now\<rparr>"
  have p: "verification_status ?new = ''pending''"
    by (simp add: insert_registration_def)
  then have c: "verification_status_check (verification_status (runActs ?new acts))"
    by (intro runActs_check) (simp add: verification_status_check_def)
  then have c': "verification_status (runActs ?new acts) = ''pending''
        \<or> verification_status (runActs ?new acts) = ''verified''"
    by (simp add: verification_status_check_def)
  have k: "verification_status_check (verification_status reg)
        \<longrightarrow> verification_status_check (verification_status (runActs reg acts))"
    using runActs_check[of reg acts] by blast
  have v: "verification_status reg = ''verified''
        \<longrightarrow> verification_status (runActs reg acts) = ''verified''"
    using runActs_verified[of reg acts] by blast
  have st: "verification_status (snd ?act)
        = (if fst ?act = None then ''verified'' else verification_status reg)"
    by (rule verificationAct_status)
  have ow: "fst ?act = None \<longrightarrow> snd ?act = ?upd"
    using verificationAct_overwrites[of reg questions scoresByQuestion actor now] by blast
  have o1: "fst ?act = None
        \<longrightarrow> verification_scores (snd ?act) = Some scoresByQuestion
            \<and> total_score (snd ?act) = Some (sum_list (map snd scoresByQuestion))
            \<and> max_score (snd ?act) = Some (10 * of_nat (length questions))
            \<and> verified_by (snd ?act) = Some actor
            \<and> verified_at (snd ?act) = Some now"
  proof
    assume "fst ?act = None"
    with ow have e: "snd ?act = ?upd" by blast
    show "verification_scores (snd ?act) = Some scoresByQuestion
            \<and> total_score (snd ?act) = Some (sum_list (map snd scoresByQuestion))
            \<and> max_score (snd ?act) = Some (10 * of_nat (length questions))
            \<and> verified_by (snd ?act) = Some actor
            \<and> verified_at (snd ?act) = Some now"
      using e by simp
  qed
  have o2: "fst ?act = None \<longrightarrow> percentage (snd ?act) = ?pct \<and> snd ?act = ?upd"
  proof
    assume "fst ?act = None"
    with ow have e: "snd ?act = ?upd" by blast
    have "percentage ?upd = ?pct" by simp
    with e show "percentage (snd ?act) = ?pct \<and> snd ?act = ?upd" by simp
  qed
  have su: "fst ?act = None \<longleftrightarrow> (\<forall>(q, v) \<in> set scoresByQuestion. validScore v)"
    by (rule verificationAct_success_iff)
  have fl: "fst ?act \<noteq> None \<longrightarrow> snd ?act = reg"
    using verificationAct_failure[of reg questions scoresByQuestion actor now] by blast
  from p c k st v o1 c' su o2 fl show ?thesis by (intro conjI)
qed

theorem score_aggregates_witness:
  "\<exists>res. score (mk_reg ''r1'' ''p1'' (Some ''pan1'') ''2026-02-01'')
            [\<lparr>id_question = ''q1'', label = ''Attendance'', sort_order = 0\<rparr>,
             \<lparr>id_question = ''q2'', label = ''Skill'', sort_order = 1\<rparr>]
            [(''q1'', 10), (''q2'', 10)] ''admin'' ''2026-02-03T09:12:54Z'' = Inr res
         \<and> result_total_score res = 20 \<and> result_max_score res = 20
         \<and> result_percentage res = 100"
proof -
  have v: "\<forall>(q, v) \<in> set [(''q1'', 10 :: rat), (''q2'', 10)]. validScore v"
    by (simp add: validScore_def is_integer_def)
  have c: "coversExactly
            [\<lparr>id_question = ''q1'', label = ''Attendance'', sort_order = 0\<rparr>,
             \<lparr>id_question = ''q2'', label = ''Skill'', sort_order = 1\<rparr>]
            [(''q1'', 10), (''q2'', 10)]"
    by (simp add: coversExactly_def)
  from score_aggregates [OF v,
      of "mk_reg ''r1'' ''p1'' (Some ''pan1'') ''2026-02-01''"
         "[\<lparr>id_question = ''q1'', label = ''Attendance'', sort_order = 0\<rparr>,
           \<lparr>id_question = ''q2'', label = ''Skill'', sort_order = 1\<rparr>]"
         "''admin''" "''2026-02-03T09:12:54Z''"] c
  show ?thesis by simp blast
qed

theorem score_rejects_invalid_witness:
  "score (mk_reg ''r1'' ''p1'' (Some ''pan1'') ''2026-02-01'')
     [\<lparr>id_question = ''q1'', label = ''Attendance'', sort_order = 0\<rparr>,
      \<lparr>id_question = ''q2'', label = ''Skill'', sort_order = 1\<rparr>]
     [(''q1'', 7), (''q2'', 11)] ''admin'' ''2026-02-03T09:12:54Z''
     = Inl (InvalidScoreError ''q2'')
   \<and> verificationAct (mk_reg ''r1'' ''p1'' (Some ''pan1'') ''2026-02-01'')
     [\<lparr>id_question = ''q1'', label = ''Attendance'', sort_order = 0\<rparr>,
      \<lparr>id_question = ''q2'', label = ''Skill'', sort_order = 1\<rparr>]
     [(''q1'', 7), (''q2'', 11)] ''admin'' ''2026-02-03T09:12:54Z''
     = (Some (InvalidScoreError ''q2''), mk_reg ''r1'' ''p1'' (Some ''pan1'') ''2026-02-01'')"
proof -
  have m: "(''q2'', 11) \<in> set [(''q1'', 7 :: rat), (''q2'', 11)]" by simp
  have n: "\<not> validScore 11" by (simp add: validScore_def)
  have u: "\<forall>(p, w) \<in> set [(''q1'', 7 :: rat), (''q2'', 11)]. \<not> validScore w \<longrightarrow> p = ''q2''"
    by (simp add: validScore_def is_integer_def)
  from score_rejects_invalid [OF m n,
      of "mk_reg ''r1'' ''p1'' (Some ''pan1'') ''2026-02-01''"
         "[\<lparr>id_question = ''q1'', label = ''Attendance'', sort_order = 0\<rparr>,
           \<lparr>id_question = ''q2'', label = ''Skill'', sort_order = 1\<rparr>]"
         "''admin''" "''2026-02-03T09:12:54Z''"] u
  show ?thesis by auto
qed

theorem verification_status_machine_witness:
  "verification_status
     (runActs (insert_registration ''r1'' ''p1'' None ''2026-02-01'')
        [Verify [\<lparr>id_question = ''q1'', label = ''Attendance'', sort_order = 0\<rparr>]
           [(''q1'', 11)] ''admin'' ''2026-02-02'']) = ''pending''
   \<and> verification_status
     (runActs (insert_registration ''r1'' ''p1'' None ''2026-02-01'')
        [Verify [\<lparr>id_question = ''q1'', label = ''Attendance'', sort_order = 0\<rparr>]
           [(''q1'', 8)] ''admin'' ''2026-02-02'',
         Verify [\<lparr>id_question = ''q1'', label = ''Attendance'', sort_order = 0\<rparr>]
           [(''q1'', 11)] ''admin'' ''2026-02-03'']) = ''verified''
   \<and> percentage
     (runActs (insert_registration ''r1'' ''p1'' None ''2026-02-01'')
        [Verify [\<lparr>id_question = ''q1'', label = ''Attendance'', sort_order = 0\<rparr>]
           [(''q1'', 3)] ''admin'' ''2026-02-02'']) = Some 30
   \<and> percentage
     (runActs (insert_registration ''r1'' ''p1'' None ''2026-02-01'')
        [Verify [\<lparr>id_question = ''q1'', label = ''Attendance'', sort_order = 0\<rparr>]
           [(''q1'', 3)] ''admin'' ''2026-02-02'',
         Verify [\<lparr>id_question = ''q1'', label = ''Attendance'', sort_order = 0\<rparr>]
           [(''q1'', 8)] ''clerk'' ''2026-02-03'']) = Some 80"
proof -
  let ?new = "insert_registration ''r1'' ''p1'' None ''2026-02-01''"
  let ?qs = "[\<lparr>id_question = ''q1'', label = ''Attendance'', sort_order = 0\<rparr>]"
  let ?v = "snd (verificationAct ?new ?qs [(''q1'', 8)] ''admin'' ''2026-02-02'')"
  let ?w = "snd (verificationAct ?new ?qs [(''q1'', 3)] ''admin'' ''2026-02-02'')"
  have v3: "\<forall>(q, v) \<in> set [(''q1'', 3 :: rat)]. validScore v"
    by (simp add: validScore_def is_integer_def)
  have v8: "\<forall>(q, v) \<in> set [(''q1'', 8 :: rat)]. validScore v"
    by (simp add: validScore_def is_integer_def)
  have v11: "\<not> (\<forall>(q, v) \<in> set [(''q1'', 11 :: rat)]. validScore v)"
    by (simp add: validScore_def)
  have bad: "fst (verificationAct ?new ?qs [(''q1'', 11)] ''admin'' ''2026-02-02'') \<noteq> None"
    using verification_status_machine
      [of "''r1''" "''p1''" None "''2026-02-01''" "[]" ?new ?qs "[(''q1'', 11)]" "''admin''"
          "''2026-02-02''"] v11
    by blast
  have good: "fst (verificationAct ?new ?qs [(''q1'', 8)] ''admin'' ''2026-02-02'') = None"
    using verification_status_machine
      [of "''r1''" "''p1''" None "''2026-02-01''" "[]" ?new ?qs "[(''q1'', 8)]" "''admin''"
          "''2026-02-02''"] v8
    by blast
  have a: "verification_status
             (snd (verificationAct ?new ?qs [(''q1'', 11)] ''admin'' ''2026-02-02'')) = ''pending''"
    using verification_status_machine
      [of "''r1''" "''p1''" None "''2026-02-01''" "[]" ?new ?qs "[(''q1'', 11)]" "''admin''"
          "''2026-02-02''"] bad
    by simp
  have b: "verification_status ?v = ''verified''"
    using verification_status_machine
      [of "''r1''" "''p1''" None "''2026-02-01''" "[]" ?new ?qs "[(''q1'', 8)]" "''admin''"
          "''2026-02-02''"] good
    by simp
  have c: "verification_status
             (runActs ?v [Verify ?qs [(''q1'', 11)] ''admin'' ''2026-02-03'']) = ''verified''"
    using verification_status_machine
      [of "''r1''" "''p1''" None "''2026-02-01''"
          "[Verify ?qs [(''q1'', 11)] ''admin'' ''2026-02-03'']" ?v ?qs "[(''q1'', 11)]"
          "''admin''" "''2026-02-03''"] b
    by blast
  have g3: "fst (verificationAct ?new ?qs [(''q1'', 3)] ''admin'' ''2026-02-02'') = None"
    using verification_status_machine
      [of "''r1''" "''p1''" None "''2026-02-01''" "[]" ?new ?qs "[(''q1'', 3)]" "''admin''"
          "''2026-02-02''"] v3
    by blast
  have "percentage ?w
        = Some (if (10 * of_nat (length ?qs) :: rat) > 0
                then 100 * sum_list (map snd [(''q1'', 3 :: rat)]) / (10 * of_nat (length ?qs))
                else 0)"
    using verification_status_machine
      [of "''r1''" "''p1''" None "''2026-02-01''" "[]" ?new ?qs "[(''q1'', 3)]" "''admin''"
          "''2026-02-02''"] g3
    by blast
  then have d: "percentage ?w = Some 30" by simp
  have g8: "fst (verificationAct ?w ?qs [(''q1'', 8)] ''clerk'' ''2026-02-03'') = None"
    using verification_status_machine
      [of "''r1''" "''p1''" None "''2026-02-01''" "[]" ?w ?qs "[(''q1'', 8)]" "''clerk''"
          "''2026-02-03''"] v8
    by blast
  have "percentage (snd (verificationAct ?w ?qs [(''q1'', 8)] ''clerk'' ''2026-02-03''))
        = Some (if (10 * of_nat (length ?qs) :: rat) > 0
                then 100 * sum_list (map snd [(''q1'', 8 :: rat)]) / (10 * of_nat (length ?qs))
                else 0)"
    using verification_status_machine
      [of "''r1''" "''p1''" None "''2026-02-01''" "[]" ?w ?qs "[(''q1'', 8)]" "''clerk''"
          "''2026-02-03''"] g8
    by blast
  then have e: "percentage (snd (verificationAct ?w ?qs [(''q1'', 8)] ''clerk'' ''2026-02-03''))
        = Some 80"
    by simp
  from a c d e show ?thesis by simp
qed

section \<open>Properties of the deletion\<close>

lemma parentAgent_deleted:
  "parent_agent_id c = Some (id_agent a) \<Longrightarrow> parentAgent (deleteAgent allAgents a) c = None"
  by (simp add: parentAgent_def deleteAgent_def find_None_iff)

lemma childrenOf_deleteAgent:
  assumes "\<forall>c \<in> set (childrenOf allAgents a). id_agent c \<noteq> id_agent a"
  shows "childrenOf (deleteAgent allAgents a) a = childrenOf allAgents a"
proof -
  have "filter (\<lambda>c. parent_agent_id c = Some (id_agent a))
          (filter (\<lambda>x. id_agent x \<noteq> id_agent a) allAgents)
        = filter (\<lambda>c. parent_agent_id c = Some (id_agent a)) allAgents"
    using assms by (auto simp: childrenOf_def intro: filter_cong)
  then show ?thesis by (simp add: childrenOf_def deleteAgent_def)
qed

text \<open>
  C8. Deleting an agent removes only the records of that agent: every other agent stays in
  the list as it was. In particular each child of the deleted agent is still listed and
  still carries the deleted agent's id as its \<open>parent_agent_id\<close>, which now refers to no
  listed agent; nothing is cascaded and nothing is reparented. The children that the
  warning of the delete dialog counts are exactly the agents left with the dangling
  reference.
\<close>

theorem deleteAgent_orphans:
  "set (deleteAgent allAgents a) = {x \<in> set allAgents. id_agent x \<noteq> id_agent a}
   \<and> (\<forall>c \<in> set (childrenOf allAgents a). id_agent c \<noteq> id_agent a
         \<longrightarrow> c \<in> set (deleteAgent allAgents a)
             \<and> parent_agent_id c = Some (id_agent a)
             \<and> parentAgent (deleteAgent allAgents a) c = None)
   \<and> ((\<forall>c \<in> set (childrenOf allAgents a). id_agent c \<noteq> id_agent a)
         \<longrightarrow> childrenOf (deleteAgent allAgents a) a = childrenOf allAgents a
             \<and> (childrenOf allAgents a \<noteq> []
                  \<longrightarrow> orphanWarning allAgents a
                        = Some (length (childrenOf (deleteAgent allAgents a) a))))"
proof -
  have s: "set (deleteAgent allAgents a) = {x \<in> set allAgents. id_agent x \<noteq> id_agent a}"
    by (simp add: deleteAgent_def)
  have k: "\<forall>c \<in> set (childrenOf allAgents a). id_agent c \<noteq> id_agent a
         \<longrightarrow> c \<in> set (deleteAgent allAgents a)
             \<and> parent_agent_id c = Some (id_agent a)
             \<and> parentAgent (deleteAgent allAgents a) c = None"
  proof (intro ballI impI)
    fix c assume c: "c \<in> set (childrenOf allAgents a)" and n: "id_agent c \<noteq> id_agent a"
    from c have p: "parent_agent_id c = Some (id_agent a)" and i: "c \<in> set allAgents"
      by (simp_all add: childrenOf_def)
    from i n have "c \<in> set (deleteAgent allAgents a)" by (simp add: deleteAgent_def)
    with p parentAgent_deleted[OF p]
    show "c \<in> set (deleteAgent allAgents a)
             \<and> parent_agent_id c = Some (id_agent a)
             \<and> parentAgent (deleteAgent allAgents a) c = None"
      by simp
  qed
  have w: "(\<forall>c \<in> set (childrenOf allAgents a). id_agent c \<noteq> id_agent a)
         \<longrightarrow> childrenOf (deleteAgent allAgents a) a = childrenOf allAgents a
             \<and> (childrenOf allAgents a \<noteq> []
                  \<longrightarrow> orphanWarning allAgents a
                        = Some (length (childrenOf (deleteAgent allAgents a) a)))"
  proof
    assume h: "\<forall>c \<in> set (childrenOf allAgents a). id_agent c \<noteq> id_agent a"
    from childrenOf_deleteAgent[OF h]
    show "childrenOf (deleteAgent allAgents a) a = childrenOf allAgents a
             \<and> (childrenOf allAgents a \<noteq> []
                  \<longrightarrow> orphanWarning allAgents a
                        = Some (length (childrenOf (deleteAgent allAgents a) a)))"
      by (simp add: orphanWarning_def Let_def)
  qed
  from s k w show ?thesis by (intro conjI)
qed

theorem deleteAgent_orphans_witness:
  "deleteAgent
     [mk_agent ''T'' team_leader None 0, mk_agent ''C'' coordinator (Some ''T'') 0,
      mk_agent ''G'' group_leader (Some ''C'') 0, mk_agent ''P1'' pro (Some ''G'') 5,
      mk_agent ''P2'' pro (Some ''G'') 3]
     (mk_agent ''G'' group_leader (Some ''C'') 0)
   = [mk_agent ''T'' team_leader None 0, mk_agent ''C'' coordinator (Some ''T'') 0,
      mk_agent ''P1'' pro (Some ''G'') 5, mk_agent ''P2'' pro (Some ''G'') 3]
   \<and> parentAgent
       (deleteAgent
         [mk_agent ''T'' team_leader None 0, mk_agent ''C'' coordinator (Some ''T'') 0,
          mk_agent ''G'' group_leader (Some ''C'') 0, mk_agent ''P1'' pro (Some ''G'') 5,
          mk_agent ''P2'' pro (Some ''G'') 3]
         (mk_agent ''G'' group_leader (Some ''C'') 0))
       (mk_agent ''P1'' pro (Some ''G'') 5) = None
   \<and> orphanWarning
         [mk_agent ''T'' team_leader None 0, mk_agent ''C'' coordinator (Some ''T'') 0,
          mk_agent ''G'' group_leader (Some ''C'') 0, mk_agent ''P1'' pro (Some ''G'') 5,
          mk_agent ''P2'' pro (Some ''G'') 3]
         (mk_agent ''G'' group_leader (Some ''C'') 0) = Some 2"
proof -
  let ?all = "[mk_agent ''T'' team_leader None 0, mk_agent ''C'' coordinator (Some ''T'') 0,
      mk_agent ''G'' group_leader (Some ''C'') 0, mk_agent ''P1'' pro (Some ''G'') 5,
      mk_agent ''P2'' pro (Some ''G'') 3]"
  let ?G = "mk_agent ''G'' group_leader (Some ''C'') 0"
  have c: "childrenOf ?all ?G = [mk_agent ''P1'' pro (Some ''G'') 5, mk_agent ''P2'' pro (Some ''G'') 3]"
    by (simp add: childrenOf_def)
  have d: "deleteAgent ?all ?G
    = [mk_agent ''T'' team_leader None 0, mk_agent ''C'' coordinator (Some ''T'') 0,
      mk_agent ''P1'' pro (Some ''G'') 5, mk_agent ''P2'' pro (Some ''G'') 3]"
    by (simp add: deleteAgent_def)
  from deleteAgent_orphans [of ?all ?G] c d show ?thesis
    by (simp add: childrenOf_def)
qed

end
